theory Spec2Isabelle
  imports Complex_Main "HOL-Library.Word"
begin

unbundle bit_operations_syntax

section \<open>Shared data model\<close>

text \<open>
  Byte buffers (\<open>Uint8Array\<close>, \<open>ArrayBuffer\<close>) are lists of 8-bit words. JavaScript
  numbers that hold integers are modelled as \<open>int\<close> (or \<open>nat\<close> for lengths and array
  offsets); a value produced by a true division is a \<open>rat\<close>. Every \<open>throw\<close> of the
  source, and every exception raised by the runtime on the modelled paths, is a value
  of the type \<open>error\<close>.
\<close>

type_synonym bytes = "8 word list"

datatype error =
    ImageDecodeError
  | RangeError
  | NotValidDds
  | NoGeometryFound
  | SerializationFailure

datatype DdsFormat = DXT1 | DXT5

record File =
  file_name :: string
  file_bytes :: bytes

section \<open>Texture codec: \<open>src/lib/formats/dds-encoder.ts\<close>\<close>

subsection \<open>Constants\<close>

definition DDS_MAGIC :: int where "DDS_MAGIC = 0x20534444"
definition DDSD_CAPS :: int where "DDSD_CAPS = 0x1"
definition DDSD_HEIGHT :: int where "DDSD_HEIGHT = 0x2"
definition DDSD_WIDTH :: int where "DDSD_WIDTH = 0x4"
definition DDSD_PIXELFORMAT :: int where "DDSD_PIXELFORMAT = 0x1000"
definition DDSD_MIPMAPCOUNT :: int where "DDSD_MIPMAPCOUNT = 0x20000"
definition DDSD_LINEARSIZE :: int where "DDSD_LINEARSIZE = 0x80000"
definition DDPF_FOURCC :: int where "DDPF_FOURCC = 0x4"
definition DDSCAPS_TEXTURE :: int where "DDSCAPS_TEXTURE = 0x1000"
definition FOURCC_DXT1 :: int where "FOURCC_DXT1 = 0x31545844"
definition FOURCC_DXT5 :: int where "FOURCC_DXT5 = 0x35545844"

subsection \<open>\<open>DataView\<close> and typed-array access\<close>

text \<open>
  \<open>view.getUint32(off, true)\<close>: little endian, \<open>RangeError\<close> when the four bytes do not
  fit in the buffer. \<open>view.setUint32(off, v, true)\<close> converts \<open>v\<close> with \<open>ToUint32\<close>, that
  is modulo \<open>2 ^ 32\<close>; the source only writes inside the 128-byte header it has
  allocated. A typed-array element read out of range is \<open>undefined\<close>, which becomes 0
  when it is stored into a \<open>Uint8Array\<close>; a write out of range is dropped, as
  \<open>xs[i := v]\<close> does.
\<close>

definition getUint32 :: "bytes \<Rightarrow> nat \<Rightarrow> error + int" where
  "getUint32 buf off =
     (if off + 4 \<le> length buf
      then Inr (uint (buf ! off) + 256 * uint (buf ! (off + 1))
                + 65536 * uint (buf ! (off + 2)) + 16777216 * uint (buf ! (off + 3)))
      else Inl RangeError)"

definition setUint32 :: "nat \<Rightarrow> int \<Rightarrow> bytes \<Rightarrow> bytes" where
  "setUint32 off v buf =
     (let u = v mod 2 ^ 32 in
      buf[off := word_of_int (u mod 256),
          off + 1 := word_of_int (u div 256 mod 256),
          off + 2 := word_of_int (u div 65536 mod 256),
          off + 3 := word_of_int (u div 16777216 mod 256)])"

definition readByte :: "bytes \<Rightarrow> int \<Rightarrow> 8 word" where
  "readByte data i = (if 0 \<le> i \<and> i < int (length data) then data ! nat i else 0)"

definition Math_round :: "rat \<Rightarrow> int" where
  "Math_round x = \<lfloor>x + 1 / 2\<rfloor>"

definition blocksOf :: "int \<Rightarrow> int" where
  \<comment> \<open>\<open>Math.max(1, Math.ceil(width / 4))\<close>\<close>
  "blocksOf width = max 1 \<lceil>rat_of_int width / 4\<rceil>"

subsection \<open>\<open>isDdsFile\<close>, \<open>getDdsFormatString\<close>\<close>

definition isDdsFile :: "bytes \<Rightarrow> bool" where
  "isDdsFile data =
     (if length data < 4 then False else getUint32 data 0 = Inr DDS_MAGIC)"

definition getDdsFormatString :: "DdsFormat \<Rightarrow> string" where
  "getDdsFormatString format = (if format = DXT1 then ''D3DFMT_DXT1'' else ''D3DFMT_DXT5'')"

subsection \<open>\<open>nearestPowerOf2\<close>\<close>

text \<open>
  The loop \<open>while (p < n) p *= 2\<close>; \<open>None\<close> is the loop that never exits.
  \<open>lower = p / 2\<close> is a true division (it is \<open>1/2\<close> when \<open>p = 1\<close>).
\<close>

partial_function (option) pow2_loop :: "int \<Rightarrow> int \<Rightarrow> int option" where
  "pow2_loop p n = (if p < n then pow2_loop (p * 2) n else Some p)"

declare pow2_loop.simps [code]

definition nearestPowerOf2 :: "int \<Rightarrow> rat option" where
  "nearestPowerOf2 n =
     (if n \<le> 0 then Some 1
      else case pow2_loop 1 n of
        None \<Rightarrow> None
      | Some p \<Rightarrow>
          (let lower = rat_of_int p / 2 in
           if lower > 0 \<and> rat_of_int n - lower < rat_of_int (p - n) \<and> lower \<ge> 4
           then Some lower
           else Some (rat_of_int p)))"

subsection \<open>\<open>hasAlpha\<close>\<close>

function hasAlpha_loop :: "bytes \<Rightarrow> nat \<Rightarrow> bool" where
  "hasAlpha_loop data i =
     (if i < length data
      then (if data ! i < 250 then True else hasAlpha_loop data (i + 4))
      else False)"
  by pat_completeness auto
termination
  by (relation "measure (\<lambda>(data, i). length data - i)") auto

declare hasAlpha_loop.simps [simp del]

definition hasAlpha :: "bytes \<Rightarrow> bool" where
  "hasAlpha data = hasAlpha_loop data 3"

subsection \<open>\<open>extractBlock\<close>\<close>

definition extractPixel :: "bytes \<Rightarrow> int \<Rightarrow> int \<Rightarrow> int \<Rightarrow> int \<Rightarrow> nat \<Rightarrow> bytes \<Rightarrow> bytes" where
  \<comment> \<open>the body of the two loops of \<open>extractBlock\<close>, for the texel \<open>i = y * 4 + x\<close>\<close>
  "extractPixel data width height px py i block =
     (let y = int (i div 4); x = int (i mod 4);
          sx = min (px + x) (width - 1);
          sy = min (py + y) (height - 1);
          srcOff = (sy * width + sx) * 4;
          dstOff = (i div 4 * 4 + i mod 4) * 4
      in block[dstOff := readByte data srcOff,
               dstOff + 1 := readByte data (srcOff + 1),
               dstOff + 2 := readByte data (srcOff + 2),
               dstOff + 3 := readByte data (srcOff + 3)])"

definition extractBlock :: "bytes \<Rightarrow> int \<Rightarrow> int \<Rightarrow> int \<Rightarrow> int \<Rightarrow> bytes" where
  "extractBlock data width height px py =
     fold (extractPixel data width height px py) [0..<16] (replicate 64 0)"

subsection \<open>\<open>colorTo565\<close>, \<open>encodeBC1Block\<close>\<close>

definition colorTo565 :: "int \<Rightarrow> int \<Rightarrow> int \<Rightarrow> int" where
  "colorTo565 r g b = push_bit 11 (drop_bit 3 r) OR push_bit 5 (drop_bit 2 g) OR drop_bit 3 b"

definition texel :: "bytes \<Rightarrow> nat \<Rightarrow> nat \<Rightarrow> int" where
  \<comment> \<open>\<open>block[i * 4 + c]\<close>\<close>
  "texel block i c = uint (readByte block (int (i * 4 + c)))"

definition minmaxRGB :: "bytes \<Rightarrow> (int \<times> int \<times> int) \<times> (int \<times> int \<times> int)" where
  "minmaxRGB block =
     fold (\<lambda>i ((minR, minG, minB), (maxR, maxG, maxB)).
             let r = texel block i 0; g = texel block i 1; b = texel block i 2 in
             ((if r < minR then r else minR, if g < minG then g else minG,
               if b < minB then b else minB),
              (if r > maxR then r else maxR, if g > maxG then g else maxG,
               if b > maxB then b else maxB)))
          [0..<16] ((255, 255, 255), (0, 0, 0))"

definition closestPaletteEntry :: "(int \<times> int \<times> int) list \<Rightarrow> int \<Rightarrow> int \<Rightarrow> int \<Rightarrow> nat" where
  \<comment> \<open>the inner loop over \<open>j\<close>; \<open>bestDist = Infinity\<close> is \<open>None\<close>\<close>
  "closestPaletteEntry palette r g b =
     snd (fold (\<lambda>j (bestDist, bestIdx).
                  let (pr, pg, pb) = palette ! j;
                      dr = r - pr; dg = g - pg; db = b - pb;
                      dist = dr * dr + dg * dg + db * db
                  in if (case bestDist of None \<Rightarrow> True | Some d \<Rightarrow> dist < d)
                     then (Some dist, j) else (bestDist, bestIdx))
               [0..<4] (None, 0))"

definition encodeBC1Block :: "bytes \<Rightarrow> bytes \<Rightarrow> nat \<Rightarrow> bytes" where
  "encodeBC1Block block output offset =
     (let ((minR0, minG0, minB0), (maxR0, maxG0, maxB0)) = minmaxRGB block;
          insetR = drop_bit 4 (maxR0 - minR0);
          insetG = drop_bit 4 (maxG0 - minG0);
          insetB = drop_bit 4 (maxB0 - minB0);
          minR = min 255 (minR0 + insetR);
          minG = min 255 (minG0 + insetG);
          minB = min 255 (minB0 + insetB);
          maxR = max 0 (maxR0 - insetR);
          maxG = max 0 (maxG0 - insetG);
          maxB = max 0 (maxB0 - insetB);
          color0 = colorTo565 maxR maxG maxB;
          color1 = colorTo565 minR minG minB;
          swap = color0 < color1;
          c0 = (if swap then color1 else color0);
          c1 = (if swap then color0 else color1);
          (ep0r, ep0g, ep0b) = (if swap then (minR, minG, minB) else (maxR, maxG, maxB));
          (ep1r, ep1g, ep1b) = (if swap then (maxR, maxG, maxB) else (minR, minG, minB));
          palette =
            [(ep0r, ep0g, ep0b),
             (ep1r, ep1g, ep1b),
             (Math_round (rat_of_int (2 * ep0r + ep1r) / 3),
              Math_round (rat_of_int (2 * ep0g + ep1g) / 3),
              Math_round (rat_of_int (2 * ep0b + ep1b) / 3)),
             (Math_round (rat_of_int (ep0r + 2 * ep1r) / 3),
              Math_round (rat_of_int (ep0g + 2 * ep1g) / 3),
              Math_round (rat_of_int (ep0b + 2 * ep1b) / 3))];
          indices =
            fold (\<lambda>i (acc :: 32 word).
                    acc OR push_bit (i * 2)
                      (word_of_nat (closestPaletteEntry palette
                         (texel block i 0) (texel block i 1) (texel block i 2))))
                 [0..<16] 0
      in output[offset := word_of_int (c0 AND 0xff),
                offset + 1 := word_of_int (drop_bit 8 c0 AND 0xff),
                offset + 2 := word_of_int (c1 AND 0xff),
                offset + 3 := word_of_int (drop_bit 8 c1 AND 0xff),
                offset + 4 := ucast (indices AND 0xff),
                offset + 5 := ucast (signed_drop_bit 8 indices AND 0xff),
                offset + 6 := ucast (signed_drop_bit 16 indices AND 0xff),
                offset + 7 := ucast (signed_drop_bit 24 indices AND 0xff)])"

subsection \<open>\<open>encodeBC3AlphaBlock\<close>\<close>

definition minmaxAlpha :: "bytes \<Rightarrow> int \<times> int" where
  "minmaxAlpha block =
     fold (\<lambda>i (minA, maxA).
             let a = texel block i 3 in
             (if a < minA then a else minA, if a > maxA then a else maxA))
          [0..<16] (255, 0)"

definition closestAlphaEntry :: "bytes \<Rightarrow> int \<Rightarrow> nat" where
  "closestAlphaEntry alphaPalette a =
     snd (fold (\<lambda>j (bestDist, bestIdx).
                  let d = \<bar>a - uint (alphaPalette ! j)\<bar>
                  in if (case bestDist of None \<Rightarrow> True | Some b \<Rightarrow> d < b)
                     then (Some d, j) else (bestDist, bestIdx))
               [0..<8] (None, 0))"

definition encodeBC3AlphaBlock :: "bytes \<Rightarrow> bytes \<Rightarrow> nat \<Rightarrow> bytes" where
  "encodeBC3AlphaBlock block output offset =
     (let (minA, maxA) = minmaxAlpha block;
          palette0 = (replicate 8 0)[0 := word_of_int maxA, 1 := word_of_int minA];
          alphaPalette =
            (if maxA > minA
             then fold (\<lambda>i pal. pal[2 + i :=
                          word_of_int (Math_round
                            (rat_of_int ((6 - int i) * maxA + (1 + int i) * minA) / 7))])
                       [0..<6] palette0
             else palette0);
          indices =
            fold (\<lambda>i (ix :: bytes).
                    ix[i := word_of_nat (closestAlphaEntry alphaPalette (texel block i 3))])
                 [0..<16] (replicate 16 0);
          bits = fold (\<lambda>i (acc :: int). acc OR push_bit (i * 3) (uint (indices ! i)))
                      [0..<16] 0
      in output[offset := word_of_int maxA,
                offset + 1 := word_of_int minA,
                offset + 2 := word_of_int (bits AND 0xFF),
                offset + 3 := word_of_int (drop_bit 8 bits AND 0xFF),
                offset + 4 := word_of_int (drop_bit 16 bits AND 0xFF),
                offset + 5 := word_of_int (drop_bit 24 bits AND 0xFF),
                offset + 6 := word_of_int (drop_bit 32 bits AND 0xFF),
                offset + 7 := word_of_int (drop_bit 40 bits AND 0xFF)])"

subsection \<open>\<open>compressBC1\<close>, \<open>compressBC3\<close>\<close>

text \<open>
  The two nested loops over \<open>by\<close> and \<open>bx\<close> thread the output array and the running
  \<open>offset\<close>.
\<close>

definition blockCoords :: "int \<Rightarrow> int \<Rightarrow> (int \<times> int) list" where
  \<comment> \<open>the pairs \<open>(bx, by)\<close> in the order the nested loops visit them\<close>
  "blockCoords blocksW blocksH =
     concat (map (\<lambda>by. map (\<lambda>bx. (int bx, int by)) [0..<nat blocksW]) [0..<nat blocksH])"

definition compressBC1 :: "bytes \<Rightarrow> int \<Rightarrow> int \<Rightarrow> bytes" where
  "compressBC1 data width height =
     (let blocksW = blocksOf width;
          blocksH = blocksOf height;
          output0 = replicate (nat (blocksW * blocksH * 8)) 0
      in fst (fold (\<lambda>(bx, by) (output, offset).
                      let block = extractBlock data width height (bx * 4) (by * 4)
                      in (encodeBC1Block block output offset, offset + 8))
                   (blockCoords blocksW blocksH) (output0, 0)))"

definition compressBC3 :: "bytes \<Rightarrow> int \<Rightarrow> int \<Rightarrow> bytes" where
  "compressBC3 data width height =
     (let blocksW = blocksOf width;
          blocksH = blocksOf height;
          output0 = replicate (nat (blocksW * blocksH * 16)) 0
      in fst (fold (\<lambda>(bx, by) (output, offset).
                      let block = extractBlock data width height (bx * 4) (by * 4);
                          output1 = encodeBC3AlphaBlock block output offset
                      in (encodeBC1Block block output1 (offset + 8), offset + 16))
                   (blockCoords blocksW blocksH) (output0, 0)))"

subsection \<open>\<open>buildDdsFile\<close>\<close>

definition copyInto :: "bytes \<Rightarrow> nat \<Rightarrow> bytes \<Rightarrow> bytes" where
  \<comment> \<open>\<open>output.set(src, offset)\<close>\<close>
  "copyInto src offset output =
     fold (\<lambda>i out. out[offset + i := src ! i]) [0..<length src] output"

definition writeDdsHeader :: "int \<Rightarrow> int \<Rightarrow> DdsFormat \<Rightarrow> bytes \<Rightarrow> bytes" where
  \<comment> \<open>the \<open>view.setUint32\<close> calls of \<open>buildDdsFile\<close>, first call innermost\<close>
  "writeDdsHeader width height format buffer =
     (let blockSize = (if format = DXT1 then 8 else 16);
          blocksW = blocksOf width;
          blocksH = blocksOf height;
          linearSize = blocksW * blocksH * blockSize
      in setUint32 108 DDSCAPS_TEXTURE
          (setUint32 84 (if format = DXT1 then FOURCC_DXT1 else FOURCC_DXT5)
          (setUint32 80 DDPF_FOURCC
          (setUint32 76 32
          (setUint32 28 1
          (setUint32 24 0
          (setUint32 20 linearSize
          (setUint32 16 width
          (setUint32 12 height
          (setUint32 8 (DDSD_CAPS OR DDSD_HEIGHT OR DDSD_WIDTH OR DDSD_PIXELFORMAT
                        OR DDSD_LINEARSIZE OR DDSD_MIPMAPCOUNT)
          (setUint32 4 124
          (setUint32 0 DDS_MAGIC buffer))))))))))))"

definition buildDdsFile :: "bytes \<Rightarrow> int \<Rightarrow> int \<Rightarrow> DdsFormat \<Rightarrow> bytes" where
  "buildDdsFile compressedData width height format =
     (let headerSize = 128;
          buffer = replicate (headerSize + length compressedData) 0
      in copyInto compressedData headerSize (writeDdsHeader width height format buffer))"

subsection \<open>\<open>decodeImageToRGBA\<close>, \<open>getDdsDimensions\<close>, \<open>encodeToDds\<close>\<close>

text \<open>
  The browser is a parameter: \<open>loadImage\<close> is the \<open>Image\<close> element (\<open>None\<close> when
  \<open>onerror\<close> fires, otherwise the natural width and height), \<open>getImageData\<close> the pixels
  the canvas returns after drawing the image at the given size. The loop of
  \<open>nearestPowerOf2\<close> always ends (lemma \<open>nearestPowerOf2_total\<close> below), so the last
  case of \<open>decodeImageToRGBA\<close>, which stands for a call that does not return, is
  never taken.
\<close>

record browser =
  loadImage :: "File \<Rightarrow> (nat \<times> nat) option"
  getImageData :: "File \<Rightarrow> int \<Rightarrow> int \<Rightarrow> bytes"

record decoded =
  dec_data :: bytes
  dec_width :: int
  dec_height :: int

record encoded =
  enc_dds :: bytes
  enc_format :: DdsFormat
  enc_width :: int
  enc_height :: int

definition capped :: "rat \<Rightarrow> int" where
  \<comment> \<open>\<open>Math.min(w, 4096)\<close>, read as the integer the canvas takes for its size\<close>
  "capped w = \<lfloor>min w 4096\<rfloor>"

definition decodeImageToRGBA :: "browser \<Rightarrow> File \<Rightarrow> error + decoded" where
  "decodeImageToRGBA br f =
     (case loadImage br f of
        None \<Rightarrow> Inl ImageDecodeError
      | Some (iw, ih) \<Rightarrow>
          (case (nearestPowerOf2 (int iw), nearestPowerOf2 (int ih)) of
             (Some w0, Some h0) \<Rightarrow>
               (let w = capped w0; h = capped h0
                in Inr \<lparr>dec_data = getImageData br f w h, dec_width = w, dec_height = h\<rparr>)
           | _ \<Rightarrow> Inl ImageDecodeError))"

definition getDdsDimensions :: "File \<Rightarrow> error + (int \<times> int)" where
  \<comment> \<open>returns \<open>(width, height)\<close>\<close>
  "getDdsDimensions f =
     (let buffer = take 128 (file_bytes f) in
      case getUint32 buffer 0 of
        Inl e \<Rightarrow> Inl e
      | Inr magic \<Rightarrow>
          if magic \<noteq> DDS_MAGIC then Inl NotValidDds
          else (case getUint32 buffer 12 of
                  Inl e \<Rightarrow> Inl e
                | Inr height \<Rightarrow>
                    (case getUint32 buffer 16 of
                       Inl e \<Rightarrow> Inl e
                     | Inr width \<Rightarrow> Inr (width, height))))"

definition encodeToDds :: "browser \<Rightarrow> File \<Rightarrow> DdsFormat option \<Rightarrow> error + encoded" where
  "encodeToDds br f forceFormat =
     (let arrayBuffer = file_bytes f in
      if isDdsFile arrayBuffer
      then (case getDdsDimensions f of
              Inl e \<Rightarrow> Inl e
            | Inr (w, h) \<Rightarrow>
                (case getUint32 arrayBuffer 84 of
                   Inl e \<Rightarrow> Inl e
                 | Inr fourCC \<Rightarrow>
                     Inr \<lparr>enc_dds = arrayBuffer,
                          enc_format = (if fourCC = FOURCC_DXT5 then DXT5 else DXT1),
                          enc_width = w, enc_height = h\<rparr>))
      else (case decodeImageToRGBA br f of
              Inl e \<Rightarrow> Inl e
            | Inr d \<Rightarrow>
                (let fmt = (case forceFormat of
                              Some forced \<Rightarrow> forced
                            | None \<Rightarrow> if hasAlpha (dec_data d) then DXT5 else DXT1);
                     compressed =
                       (if fmt = DXT1
                        then compressBC1 (dec_data d) (dec_width d) (dec_height d)
                        else compressBC3 (dec_data d) (dec_width d) (dec_height d))
                 in Inr \<lparr>enc_dds = buildDdsFile compressed (dec_width d) (dec_height d) fmt,
                         enc_format = fmt, enc_width = dec_width d,
                         enc_height = dec_height d\<rparr>)))"

section \<open>Strings\<close>

text \<open>
  A \<open>char\<close> stands for one code unit of a JavaScript string. \<open>decimal n\<close> is the text a
  template literal \<open>${n}\<close> produces for a non-negative integer.
\<close>

definition digitChar :: "nat \<Rightarrow> char" where
  "digitChar d = ''0123456789'' ! d"

function decimal :: "nat \<Rightarrow> string" where
  "decimal n = (if n < 10 then [digitChar n] else decimal (n div 10) @ [digitChar (n mod 10)])"
  by pat_completeness auto
termination
  by (relation "measure id") auto

declare decimal.simps [simp del]

definition isDigit :: "char \<Rightarrow> bool" where
  "isDigit c \<longleftrightarrow> c \<in> set ''0123456789''"

definition isWordChar :: "char \<Rightarrow> bool" where
  \<comment> \<open>the class \<open>[a-zA-Z0-9_]\<close>\<close>
  "isWordChar c \<longleftrightarrow>
     c \<in> set ''abcdefghijklmnopqrstuvwxyzABCDEFGHIJKLMNOPQRSTUVWXYZ0123456789_''"

definition toLowerChar :: "char \<Rightarrow> char" where
  "toLowerChar c =
     (case map_of (zip ''ABCDEFGHIJKLMNOPQRSTUVWXYZ'' ''abcdefghijklmnopqrstuvwxyz'') c of
        Some l \<Rightarrow> l
      | None \<Rightarrow> c)"

fun stripExtension :: "string \<Rightarrow> string" where
  \<comment> \<open>\<open>s.replace(/\.[^/.]+$/, "")\<close>: a dot followed, up to the end, by one or more
      characters that are neither a slash nor a dot\<close>
  "stripExtension [] = []"
| "stripExtension (c # cs) =
     (if c = CHR ''.'' \<and> cs \<noteq> [] \<and> list_all (\<lambda>d. d \<noteq> CHR ''/'' \<and> d \<noteq> CHR ''.'') cs
      then []
      else c # stripExtension cs)"

definition sanitizeTextureName :: "string \<Rightarrow> string" where
  "sanitizeTextureName filename =
     map toLowerChar
       (map (\<lambda>c. if isWordChar c then c else CHR ''_'') (stripExtension filename))"

section \<open>Mesh extractor: \<open>src/lib/parsers/model-parser.ts\<close>\<close>

text \<open>
  The scene graph comes from the external loader. A vertex attribute is its accessors;
  an index read from the index array is \<open>None\<close> when the read is past the end of the
  array (JavaScript's \<open>undefined\<close>), and the accessors are asked for that value as they
  are for any other. Floating-point attribute values are an abstract type \<open>'f\<close> with a
  zero and a one.
\<close>

type_synonym idx = "nat option"

record 'f attribute =
  attr_count :: nat
  itemSize :: nat
  getX :: "idx \<Rightarrow> 'f"
  getY :: "idx \<Rightarrow> 'f"
  getZ :: "idx \<Rightarrow> 'f"
  getW :: "idx \<Rightarrow> 'f"

record geoGroup =
  g_start :: nat
  g_count :: nat
  g_materialIndex :: "nat option"

record 'f geometry =
  geo_index :: "nat list option"
  geo_position :: "'f attribute"
  geo_normal :: "'f attribute option"
  geo_uv :: "'f attribute option"
  geo_color :: "'f attribute option"
  geo_groups :: "geoGroup list"

record 'f ParsedMesh =
  positions :: "'f list"
  normals :: "'f list"
  uvs :: "'f list"
  colors :: "'f list option"
  indices :: "nat list"
  materialIndex :: nat
  materialName :: string

record 'f ParsedModel =
  model_name :: string
  meshes :: "'f ParsedMesh list"
  materialNames :: "string list"

subsection \<open>\<open>extractSubMesh\<close>\<close>

definition readIndex :: "nat list \<Rightarrow> nat \<Rightarrow> idx" where
  \<comment> \<open>\<open>srcIndices[i]\<close>\<close>
  "readIndex srcIndices i = (if i < length srcIndices then Some (srcIndices ! i) else None)"

definition remapStep :: "nat list \<Rightarrow> nat \<Rightarrow> (idx \<times> nat) list \<times> nat list \<Rightarrow> (idx \<times> nat) list \<times> nat list" where
  \<comment> \<open>one round of the first loop; the \<open>Map\<close> is the list of its entries in insertion
      order, \<open>usedIndices.push\<close> appends\<close>
  "remapStep srcIndices i = (\<lambda>(vertexRemap, usedIndices).
     let origIdx = readIndex srcIndices i;
         vertexRemap' =
           (if map_of vertexRemap origIdx = None
            then vertexRemap @ [(origIdx, length vertexRemap)]
            else vertexRemap)
     in (vertexRemap', usedIndices @ [the (map_of vertexRemap' origIdx)]))"

definition collectVertices :: "nat list \<Rightarrow> nat \<Rightarrow> nat \<Rightarrow> (idx \<times> nat) list \<times> nat list" where
  "collectVertices srcIndices startIndex count =
     fold (remapStep srcIndices) [startIndex..<startIndex + count] ([], [])"

definition fillColors :: "'f::{zero,one} attribute \<Rightarrow> (idx \<times> nat) list \<Rightarrow> 'f list \<Rightarrow> 'f list" where
  "fillColors srcColors vertexRemap colors0 =
     fold (\<lambda>(origIdx, newIdx) colors.
             colors[newIdx * 4 := getX srcColors origIdx,
                    newIdx * 4 + 1 := getY srcColors origIdx,
                    newIdx * 4 + 2 := (if itemSize srcColors \<ge> 3 then getZ srcColors origIdx else 0),
                    newIdx * 4 + 3 := (if itemSize srcColors \<ge> 4 then getW srcColors origIdx else 1)])
          vertexRemap colors0"

definition fillVertex :: "'f::{zero,one} geometry \<Rightarrow> idx \<times> nat \<Rightarrow> 'f list \<times> 'f list \<times> 'f list \<Rightarrow> 'f list \<times> 'f list \<times> 'f list" where
  \<comment> \<open>one round of the second loop over the entries of the \<open>Map\<close>\<close>
  "fillVertex geo = (\<lambda>(origIdx, newIdx) (positions, normals, uvs).
     let srcPositions = geo_position geo;
         positions' = positions[newIdx * 3 := getX srcPositions origIdx,
                                newIdx * 3 + 1 := getY srcPositions origIdx,
                                newIdx * 3 + 2 := getZ srcPositions origIdx];
         normals' = (case geo_normal geo of
                       Some srcNormals \<Rightarrow>
                         normals[newIdx * 3 := getX srcNormals origIdx,
                                 newIdx * 3 + 1 := getY srcNormals origIdx,
                                 newIdx * 3 + 2 := getZ srcNormals origIdx]
                     | None \<Rightarrow> normals);
         uvs' = (case geo_uv geo of
                   Some srcUvs \<Rightarrow>
                     uvs[newIdx * 2 := getX srcUvs origIdx,
                         newIdx * 2 + 1 := getY srcUvs origIdx]
                 | None \<Rightarrow> uvs)
     in (positions', normals', uvs'))"

definition extractSubMesh ::
  "'f::{zero,one} geometry \<Rightarrow> nat \<Rightarrow> nat \<Rightarrow> nat \<Rightarrow> string \<Rightarrow> 'f ParsedMesh option" where
  "extractSubMesh geo startIndex count matIndex matName =
     (case geo_index geo of
        None \<Rightarrow> None
      | Some srcIndices \<Rightarrow>
          (let (vertexRemap, usedIndices) = collectVertices srcIndices startIndex count;
               vertexCount = length vertexRemap
           in if vertexCount = 0 then None
              else
                (let colors =
                       (case geo_color geo of
                          Some srcColors \<Rightarrow>
                            Some (fillColors srcColors vertexRemap (replicate (vertexCount * 4) 0))
                        | None \<Rightarrow> None);
                     (positions, normals, uvs) =
                       fold (fillVertex geo) vertexRemap
                         (replicate (vertexCount * 3) 0, replicate (vertexCount * 3) 0,
                          replicate (vertexCount * 2) 0)
                 in Some \<lparr>positions = positions, normals = normals, uvs = uvs,
                           colors = colors, indices = usedIndices,
                           materialIndex = matIndex, materialName = matName\<rparr>)))"

subsection \<open>\<open>extractModelData\<close>\<close>

text \<open>
  \<open>root.traverse\<close> visits the nodes in a fixed order; the model takes the drawable
  nodes (the instances of \<open>THREE.Mesh\<close>) in that order, each with its geometry after the
  world transform has been applied and with its \<open>material\<close> field, which is one
  material or an array of materials; a material that is missing is \<open>None\<close>.
  \<open>mat_id\<close> is the \<open>id\<close> of the material object, the number that is unique to each
  material instance: the extractor never reads it, it only tells whether two groups use
  one and the same material.
  \<open>computeVertexNormals\<close> belongs to the loader library and is a parameter.
\<close>

record material =
  mat_id :: nat
  mat_name :: string

datatype materialField = Single "material option" | Multiple "material option list"

record 'f meshNode =
  node_geometry :: "'f geometry"
  node_material :: materialField

record 'f extractState =
  st_materialMap :: "string \<rightharpoonup> nat"
  st_materialNames :: "string list"
  st_meshes :: "'f ParsedMesh list"

definition ensureIndexed :: "'f geometry \<Rightarrow> 'f geometry" where
  "ensureIndexed geo =
     (case geo_index geo of
        None \<Rightarrow> geo\<lparr>geo_index := Some [0..<attr_count (geo_position geo)]\<rparr>
      | Some _ \<Rightarrow> geo)"

definition ensureNormals :: "('f geometry \<Rightarrow> 'f attribute) \<Rightarrow> 'f geometry \<Rightarrow> 'f geometry" where
  "ensureNormals computeVertexNormals geo =
     (case geo_normal geo of
        None \<Rightarrow> geo\<lparr>geo_normal := Some (computeVertexNormals geo)\<rparr>
      | Some _ \<Rightarrow> geo)"

definition materialsOf :: "materialField \<Rightarrow> material option list" where
  \<comment> \<open>\<open>Array.isArray(child.material) ? child.material : [child.material]\<close>\<close>
  "materialsOf m = (case m of Single x \<Rightarrow> [x] | Multiple xs \<Rightarrow> xs)"

definition groupsOf :: "'f geometry \<Rightarrow> geoGroup list" where
  \<comment> \<open>called on a geometry that \<open>ensureIndexed\<close> has given an index\<close>
  "groupsOf geo =
     (if length (geo_groups geo) > 0 then geo_groups geo
      else [\<lparr>g_start = 0,
             g_count = (case geo_index geo of Some ix \<Rightarrow> length ix | None \<Rightarrow> 0),
             g_materialIndex = Some 0\<rparr>])"

definition pickMaterial :: "material option list \<Rightarrow> nat \<Rightarrow> material option" where
  \<comment> \<open>\<open>materials[matIdx] || materials[0]\<close>\<close>
  "pickMaterial materials matIdx =
     (case (if matIdx < length materials then materials ! matIdx else None) of
        Some m \<Rightarrow> Some m
      | None \<Rightarrow> (case materials of [] \<Rightarrow> None | m0 # _ \<Rightarrow> m0))"

definition groupStep ::
  "'f::{zero,one} geometry \<Rightarrow> material option list \<Rightarrow> geoGroup \<Rightarrow> 'f extractState \<Rightarrow> 'f extractState" where
  "groupStep geo materials grp st =
     (let matIdx = (case g_materialIndex grp of Some i \<Rightarrow> i | None \<Rightarrow> 0);
          mat = pickMaterial materials matIdx;
          matName = (case mat of
                       Some m \<Rightarrow> if mat_name m \<noteq> [] then mat_name m
                                 else ''Material_'' @ decimal (length (st_materialNames st))
                     | None \<Rightarrow> ''Material_'' @ decimal (length (st_materialNames st)));
          st1 = (if st_materialMap st matName = None
                 then st\<lparr>st_materialMap := (st_materialMap st)(matName \<mapsto> length (st_materialNames st)),
                         st_materialNames := st_materialNames st @ [matName]\<rparr>
                 else st);
          globalMatIdx = the (st_materialMap st1 matName)
      in case extractSubMesh geo (g_start grp) (g_count grp) globalMatIdx matName of
           Some subMesh \<Rightarrow> st1\<lparr>st_meshes := st_meshes st1 @ [subMesh]\<rparr>
         | None \<Rightarrow> st1)"

definition nodeStep ::
  "('f geometry \<Rightarrow> 'f attribute) \<Rightarrow> 'f::{zero,one} meshNode \<Rightarrow> 'f extractState \<Rightarrow> 'f extractState" where
  "nodeStep computeVertexNormals child st =
     (let geo = ensureNormals computeVertexNormals (ensureIndexed (node_geometry child));
          materials = materialsOf (node_material child);
          groups = groupsOf geo
      in fold (groupStep geo materials) groups st)"

definition extractModelData ::
  "('f geometry \<Rightarrow> 'f attribute) \<Rightarrow> 'f::{zero,one} meshNode list \<Rightarrow> string \<Rightarrow> error + 'f ParsedModel" where
  "extractModelData computeVertexNormals drawables filename =
     (let st = fold (nodeStep computeVertexNormals) drawables
                 \<lparr>st_materialMap = Map.empty, st_materialNames = [], st_meshes = []\<rparr>;
          names = (if length (st_materialNames st) = 0 then st_materialNames st @ [''default'']
                   else st_materialNames st)
      in if length (st_meshes st) = 0 then Inl NoGeometryFound
         else Inr \<lparr>model_name = stripExtension filename, meshes = st_meshes st,
                   materialNames = names\<rparr>)"

section \<open>Shader catalog: \<open>shader-defs.ts\<close>\<close>

text \<open>
  The catalog entries with the fields the pipeline reads: the labels, descriptions,
  display names and categories of the source are used by the editor only. Parameter
  values are the exact rationals denoted by the literals of the source.
\<close>

record VectorParam =
  vp_name :: string
  vp_x :: rat
  vp_y :: rat
  vp_z :: rat
  vp_w :: rat

record ShaderDef =
  sd_filename :: string
  sd_renderBucket :: nat
  sd_textureParams :: "string list"
  sd_vectorParams :: "VectorParam list"
  sd_needsTangent :: bool

definition vec :: "string \<Rightarrow> rat \<Rightarrow> rat \<Rightarrow> rat \<Rightarrow> rat \<Rightarrow> VectorParam" where
  "vec n x y z w = \<lparr>vp_name = n, vp_x = x, vp_y = y, vp_z = z, vp_w = w\<rparr>"

definition shader :: "string \<Rightarrow> nat \<Rightarrow> string list \<Rightarrow> VectorParam list \<Rightarrow> bool \<Rightarrow> ShaderDef" where
  "shader fn rb tps vps nt =
     \<lparr>sd_filename = fn, sd_renderBucket = rb, sd_textureParams = tps,
      sd_vectorParams = vps, sd_needsTangent = nt\<rparr>"

definition COMMON_VECTOR_PARAMS :: "VectorParam list" where
  "COMMON_VECTOR_PARAMS =
     [vec ''matMaterialColorScale'' 1 0 0 1,
      vec ''HardAlphaBlend'' 1 0 0 0,
      vec ''useTessellation'' 0 0 0 0,
      vec ''wetnessMultiplier'' 1 0 0 0,
      vec ''globalAnimUV1'' 0 1 0 0,
      vec ''globalAnimUV0'' 1 0 0 0]"

definition SPEC_PARAMS :: "VectorParam list" where
  "SPEC_PARAMS =
     [vec ''specularIntensityMult'' (125 / 1000) 0 0 0,
      vec ''specularFalloffMult'' 100 0 0 0,
      vec ''specularFresnel'' (97 / 100) 0 0 0]"

definition BUMPINESS :: VectorParam where
  "BUMPINESS = vec ''bumpiness'' 1 0 0 0"

definition NORMAL_SPEC_PARAMS :: "VectorParam list" where
  "NORMAL_SPEC_PARAMS = SPEC_PARAMS @ [BUMPINESS]"

definition EMISSIVE_PARAMS :: "VectorParam list" where
  "EMISSIVE_PARAMS = [vec ''emissiveMultiplier'' 1 0 0 0]"

definition DETAIL_PARAMS :: "VectorParam list" where
  "DETAIL_PARAMS = [vec ''detailSettings'' 0 0 0 1]"

definition DIFFUSE_ONLY :: "string list" where
  "DIFFUSE_ONLY = [''DiffuseSampler'']"

definition DIFFUSE_BUMP :: "string list" where
  "DIFFUSE_BUMP = DIFFUSE_ONLY @ [''BumpSampler'']"

definition DIFFUSE_SPEC :: "string list" where
  "DIFFUSE_SPEC = DIFFUSE_ONLY @ [''SpecSampler'']"

definition DIFFUSE_BUMP_SPEC :: "string list" where
  "DIFFUSE_BUMP_SPEC = DIFFUSE_ONLY @ [''BumpSampler'', ''SpecSampler'']"

definition DIFFUSE_BUMP_SPEC_DETAIL :: "string list" where
  "DIFFUSE_BUMP_SPEC_DETAIL = DIFFUSE_BUMP_SPEC @ [''DetailSampler'']"

definition ALL_SHADERS :: "ShaderDef list" where
  "ALL_SHADERS =
     [shader ''default.sps'' 0 DIFFUSE_ONLY COMMON_VECTOR_PARAMS False,
      shader ''normal.sps'' 0 DIFFUSE_BUMP (COMMON_VECTOR_PARAMS @ [BUMPINESS]) True,
      shader ''spec.sps'' 0 DIFFUSE_SPEC (COMMON_VECTOR_PARAMS @ SPEC_PARAMS) False,
      shader ''normal_spec.sps'' 0 DIFFUSE_BUMP_SPEC
        (COMMON_VECTOR_PARAMS @ NORMAL_SPEC_PARAMS) True,
      shader ''normal_spec_detail.sps'' 0 DIFFUSE_BUMP_SPEC_DETAIL
        (COMMON_VECTOR_PARAMS @ NORMAL_SPEC_PARAMS @ DETAIL_PARAMS) True,
      shader ''normal_detail.sps'' 0 (DIFFUSE_BUMP @ [''DetailSampler''])
        (COMMON_VECTOR_PARAMS @ [BUMPINESS] @ DETAIL_PARAMS) True,
      shader ''spec_detail.sps'' 0 (DIFFUSE_SPEC @ [''DetailSampler''])
        (COMMON_VECTOR_PARAMS @ SPEC_PARAMS @ DETAIL_PARAMS) False,
      shader ''alpha.sps'' 1 DIFFUSE_ONLY COMMON_VECTOR_PARAMS False,
      shader ''normal_spec_alpha.sps'' 1 DIFFUSE_BUMP_SPEC
        (COMMON_VECTOR_PARAMS @ NORMAL_SPEC_PARAMS) True,
      shader ''normal_alpha.sps'' 1 DIFFUSE_BUMP (COMMON_VECTOR_PARAMS @ [BUMPINESS]) True,
      shader ''spec_alpha.sps'' 1 DIFFUSE_SPEC (COMMON_VECTOR_PARAMS @ SPEC_PARAMS) False,
      shader ''cutout_fence.sps'' 3 DIFFUSE_ONLY COMMON_VECTOR_PARAMS False,
      shader ''normal_cutout_fence.sps'' 3 DIFFUSE_BUMP
        (COMMON_VECTOR_PARAMS @ [BUMPINESS]) True,
      shader ''normal_spec_cutout_fence.sps'' 3 DIFFUSE_BUMP_SPEC
        (COMMON_VECTOR_PARAMS @ NORMAL_SPEC_PARAMS) True,
      shader ''decal.sps'' 2 DIFFUSE_ONLY COMMON_VECTOR_PARAMS False,
      shader ''normal_decal.sps'' 2 DIFFUSE_BUMP (COMMON_VECTOR_PARAMS @ [BUMPINESS]) True,
      shader ''normal_spec_decal.sps'' 2 DIFFUSE_BUMP_SPEC
        (COMMON_VECTOR_PARAMS @ NORMAL_SPEC_PARAMS) True,
      shader ''emissive.sps'' 0 DIFFUSE_ONLY (COMMON_VECTOR_PARAMS @ EMISSIVE_PARAMS) False,
      shader ''emissivenight.sps'' 0 DIFFUSE_ONLY
        (COMMON_VECTOR_PARAMS @ EMISSIVE_PARAMS) False,
      shader ''emissive_alpha.sps'' 1 DIFFUSE_ONLY
        (COMMON_VECTOR_PARAMS @ EMISSIVE_PARAMS) False,
      shader ''normal_spec_emissive.sps'' 0 DIFFUSE_BUMP_SPEC
        (COMMON_VECTOR_PARAMS @ NORMAL_SPEC_PARAMS @ EMISSIVE_PARAMS) True,
      shader ''glass.sps'' 1 DIFFUSE_ONLY COMMON_VECTOR_PARAMS False,
      shader ''glass_normal_spec_reflect.sps'' 1 DIFFUSE_BUMP_SPEC
        (COMMON_VECTOR_PARAMS @ NORMAL_SPEC_PARAMS) True,
      shader ''reflect.sps'' 0 DIFFUSE_ONLY COMMON_VECTOR_PARAMS False,
      shader ''normal_spec_reflect.sps'' 0 DIFFUSE_BUMP_SPEC
        (COMMON_VECTOR_PARAMS @ NORMAL_SPEC_PARAMS) True]"

definition SHADER_MAP :: "string \<rightharpoonup> ShaderDef" where
  "SHADER_MAP = fold (\<lambda>s m. m(sd_filename s \<mapsto> s)) ALL_SHADERS Map.empty"

definition DEFAULT_SHADER :: ShaderDef where
  "DEFAULT_SHADER = ALL_SHADERS ! 0"

section \<open>Material configurations and texture entries: \<open>store.ts\<close>, \<open>ydr-xml.ts\<close>\<close>

text \<open>
  \<open>textures\<close> of a material configuration is a JavaScript object used as a dictionary:
  the list of its entries in the order \<open>Object.entries\<close> enumerates them, keys distinct.
\<close>

record TextureSlotData =
  slot_file :: "File option"
  slot_previewUrl :: "string option"
  slot_width :: int
  slot_height :: int

record MaterialConfig =
  mc_name :: string
  mc_shaderName :: string
  mc_textures :: "(string \<times> TextureSlotData) list"

record TextureEntry =
  te_name :: string
  te_samplerName :: string
  te_width :: int
  te_height :: int
  te_format :: DdsFormat
  te_fileName :: string

section \<open>Document serializer: \<open>ydr-xml.ts\<close>\<close>

subsection \<open>\<open>escXml\<close>\<close>

definition replaceAllChar :: "char \<Rightarrow> string \<Rightarrow> string \<Rightarrow> string" where
  \<comment> \<open>\<open>s.replace(/c/g, r)\<close> for a pattern that is the single character \<open>c\<close>\<close>
  "replaceAllChar c r s = concat (map (\<lambda>x. if x = c then r else [x]) s)"

definition escXml :: "string \<Rightarrow> string" where
  "escXml s =
     replaceAllChar (CHR 0x22) ''&quot;''
       (replaceAllChar CHR ''>'' ''&gt;''
         (replaceAllChar CHR ''<'' ''&lt;''
           (replaceAllChar CHR ''&'' ''&amp;'' s)))"

subsection \<open>The number formatter \<open>f\<close>\<close>

text \<open>
  A finite number is the rational it denotes. \<open>Number.prototype.toFixed\<close> is the
  algorithm of the language specification, which works on that exact value: the sign,
  then, below \<open>10 ^ 21\<close>, the integer \<open>n\<close> nearest to \<open>x * 10 ^ fd\<close> (the larger of two
  nearest), written in decimal with a point before its last \<open>fd\<close> digits and padded
  with zeros to \<open>fd + 1\<close> digits; from \<open>10 ^ 21\<close> on it is the text of
  \<open>Number::toString\<close>, a parameter of the model.
\<close>

definition toFixed :: "(rat \<Rightarrow> string) \<Rightarrow> nat \<Rightarrow> rat \<Rightarrow> string" where
  "toFixed numberToString fd x0 =
     (let s = (if x0 < 0 then ''-'' else '''');
          x = (if x0 < 0 then - x0 else x0)
      in if x \<ge> 10 ^ 21 then s @ numberToString x
         else
           (let n = nat \<lfloor>x * 10 ^ fd + 1 / 2\<rfloor>;
                m0 = decimal n;
                k0 = length m0;
                m1 = (if k0 \<le> fd then replicate (fd + 1 - k0) CHR ''0'' @ m0 else m0);
                k = (if k0 \<le> fd then fd + 1 else k0);
                m = (if fd \<noteq> 0 then take (k - fd) m1 @ ''.'' @ drop (k - fd) m1 else m0)
            in s @ m))"

fun lazyDigitsThenZeros :: "string \<Rightarrow> string option" where
  \<comment> \<open>matches \<open>\d*?0+$\<close> against the whole text and returns what \<open>\d*?\<close> has taken: the
      lazy quantifier first tries to take nothing\<close>
  "lazyDigitsThenZeros cs =
     (if cs \<noteq> [] \<and> list_all (\<lambda>c. c = CHR ''0'') cs then Some []
      else (case cs of
              [] \<Rightarrow> None
            | c # cs' \<Rightarrow>
                if isDigit c then map_option ((#) c) (lazyDigitsThenZeros cs') else None))"

declare lazyDigitsThenZeros.simps [simp del]

fun stripTrailingZeros :: "string \<Rightarrow> string" where
  \<comment> \<open>\<open>s.replace(/(\.\d*?)0+$/, "$1")\<close>: the leftmost dot at which the pattern matches\<close>
  "stripTrailingZeros [] = []"
| "stripTrailingZeros (c # cs) =
     (if c = CHR ''.''
      then (case lazyDigitsThenZeros cs of
              Some g \<Rightarrow> c # g
            | None \<Rightarrow> c # stripTrailingZeros cs)
      else c # stripTrailingZeros cs)"

definition dotAtEnd :: "string \<Rightarrow> string" where
  \<comment> \<open>\<open>s.replace(/\.$/, ".0")\<close>\<close>
  "dotAtEnd s = (if s \<noteq> [] \<and> last s = CHR ''.'' then butlast s @ ''.0'' else s)"

definition isInteger :: "rat \<Rightarrow> bool" where
  "isInteger n \<longleftrightarrow> n = rat_of_int \<lfloor>n\<rfloor>"

definition f_number :: "(rat \<Rightarrow> string) \<Rightarrow> rat \<Rightarrow> string" where
  \<comment> \<open>the function \<open>f\<close> of the source\<close>
  "f_number numberToString n =
     (if isInteger n then toFixed numberToString 1 n
      else dotAtEnd (stripTrailingZeros (toFixed numberToString 7 n)))"

subsection \<open>The shader list of \<open>generateYdrXml\<close>\<close>

text \<open>
  \<open>textures.find\<close>, \<open>textures.indexOf\<close> and \<open>materials.indexOf\<close> compare objects by
  identity; the entries of either array are distinct objects, so an object is known by
  its position. \<open>findIndex\<close> is \<open>-1\<close> when nothing is found.
\<close>

fun findIndexFrom :: "('a \<Rightarrow> bool) \<Rightarrow> 'a list \<Rightarrow> int \<Rightarrow> int" where
  "findIndexFrom p [] i = - 1"
| "findIndexFrom p (x # xs) i = (if p x then i else findIndexFrom p xs (i + 1))"

definition findIndex :: "('a \<Rightarrow> bool) \<Rightarrow> 'a list \<Rightarrow> int" where
  "findIndex p xs = findIndexFrom p xs 0"

definition findWithIndex :: "(int \<Rightarrow> 'a \<Rightarrow> bool) \<Rightarrow> 'a list \<Rightarrow> 'a option" where
  \<comment> \<open>\<open>xs.find(t => p(xs.indexOf(t), t))\<close>\<close>
  "findWithIndex p xs = map_option snd (find (\<lambda>(i, t). p i t) (zip (map int [0..<length xs]) xs))"

definition resolveTexture ::
  "TextureEntry list \<Rightarrow> int \<Rightarrow> MaterialConfig \<Rightarrow> string \<Rightarrow> TextureEntry option" where
  \<comment> \<open>the texture chosen for the parameter \<open>tp\<close> of the material at position \<open>matIdx\<close>\<close>
  "resolveTexture textures matIdx mat tp =
     (case findWithIndex
             (\<lambda>i t. te_samplerName t = tp \<and>
                    matIdx = i - findIndex (\<lambda>tt. te_samplerName tt = tp) textures)
             textures of
        Some t \<Rightarrow> Some t
      | None \<Rightarrow>
          find (\<lambda>t. case map_of (mc_textures mat) tp of
                      None \<Rightarrow> False
                    | Some matTexData \<Rightarrow>
                        (case slot_file matTexData of
                           None \<Rightarrow> False
                         | Some file \<Rightarrow>
                             te_name t = sanitizeTextureName (file_name file) \<and>
                             te_samplerName t = tp))
               textures)"

definition textureParamLines :: "TextureEntry list \<Rightarrow> int \<Rightarrow> MaterialConfig \<Rightarrow> string \<Rightarrow> string list" where
  "textureParamLines textures matIdx mat tp =
     (case resolveTexture textures matIdx mat tp of
        Some tex \<Rightarrow>
          [''          <Item name=\"'' @ tp @ ''\" type=\"Texture\">'',
           ''            <Name>'' @ escXml (te_name tex) @ ''</Name>'',
           ''          </Item>'']
      | None \<Rightarrow>
          [''          <Item name=\"'' @ tp @ ''\" type=\"Texture\">'',
           ''            <Name />'',
           ''          </Item>''])"

definition vectorParamLine :: "(rat \<Rightarrow> string) \<Rightarrow> VectorParam \<Rightarrow> string" where
  "vectorParamLine numberToString vp =
     ''          <Item name=\"'' @ vp_name vp @ ''\" type=\"Vector\" x=\"'' @ f_number numberToString (vp_x vp)
       @ ''\" y=\"'' @ f_number numberToString (vp_y vp) @ ''\" z=\"'' @ f_number numberToString (vp_z vp)
       @ ''\" w=\"'' @ f_number numberToString (vp_w vp) @ ''\" />''"

definition shaderItemLines ::
  "(rat \<Rightarrow> string) \<Rightarrow> TextureEntry list \<Rightarrow> int \<Rightarrow> MaterialConfig \<Rightarrow> string list" where
  \<comment> \<open>one round of the loop over the materials\<close>
  "shaderItemLines numberToString textures matIdx mat =
     (let shaderDef = (case SHADER_MAP (mc_shaderName mat) of Some d \<Rightarrow> d | None \<Rightarrow> DEFAULT_SHADER);
          shaderDisplayName =
            map toLowerChar (map (\<lambda>c. if isWordChar c then c else CHR ''_'') (mc_name mat))
      in [''      <Item>'',
          ''        <Name>'' @ escXml shaderDisplayName @ ''</Name>'',
          ''        <FileName>'' @ escXml (sd_filename shaderDef) @ ''</FileName>'',
          ''        <RenderBucket value=\"'' @ decimal (sd_renderBucket shaderDef) @ ''\" />'',
          ''        <Parameters>'']
         @ concat (map (textureParamLines textures matIdx mat) (sd_textureParams shaderDef))
         @ map (vectorParamLine numberToString) (sd_vectorParams shaderDef)
         @ [''        </Parameters>'',
            ''      </Item>''])"

definition shadersLines :: "(rat \<Rightarrow> string) \<Rightarrow> TextureEntry list \<Rightarrow> MaterialConfig list \<Rightarrow> string list" where
  "shadersLines numberToString textures materials =
     [''    <Shaders>'']
     @ concat (map (\<lambda>(i, mat). shaderItemLines numberToString textures (int i) mat)
                   (zip [0..<length materials] materials))
     @ [''    </Shaders>'']"

section \<open>Export orchestrator: \<open>src/lib/export/exporter.ts\<close>\<close>

text \<open>
  The texture loop of \<open>exportYdr\<close> threads the entry list, the converted files, the
  dictionary of textures already processed and the counter. The \<open>try\<close> block around
  \<open>encodeToDds\<close> catches every error of the codec. The calls of \<open>onProgress\<close> are
  notifications to the caller and are left out, as is the archive library: the result
  is what is handed to it. The document serializer is a parameter, so that the
  orchestration is stated for any serializer, failing or not.
\<close>

record 'f YdrXmlOptions =
  opt_name :: string
  opt_model :: "'f ParsedModel"
  opt_materials :: "MaterialConfig list"
  opt_textures :: "TextureEntry list"

record exportState =
  textureEntries :: "TextureEntry list"
  ddsFiles :: "(string \<times> bytes) list"
  processedTextures :: "string \<rightharpoonup> TextureEntry"
  texCount :: nat

record exported =
  archiveName :: string
  archiveFiles :: "(string \<times> (string + bytes)) list"

definition slotStep :: "browser \<Rightarrow> string \<times> TextureSlotData \<Rightarrow> exportState \<Rightarrow> exportState" where
  \<comment> \<open>one round of the inner loop over \<open>Object.entries(mat.textures)\<close>\<close>
  "slotStep br = (\<lambda>(samplerName, slotData) st.
     case slot_file slotData of
       None \<Rightarrow> st
     | Some file \<Rightarrow>
         (let texName = sanitizeTextureName (file_name file);
              ddsFileName = texName @ ''.dds''
          in case processedTextures st texName of
               Some existing \<Rightarrow>
                 st\<lparr>textureEntries :=
                      textureEntries st @ [existing\<lparr>te_samplerName := samplerName\<rparr>]\<rparr>
             | None \<Rightarrow>
                 (let st1 = st\<lparr>texCount := texCount st + 1\<rparr>
                  in case encodeToDds br file None of
                       Inr result \<Rightarrow>
                         (let entry = \<lparr>te_name = texName, te_samplerName = samplerName,
                                       te_width = enc_width result,
                                       te_height = enc_height result,
                                       te_format = enc_format result,
                                       te_fileName = ddsFileName\<rparr>
                          in st1\<lparr>textureEntries := textureEntries st1 @ [entry],
                                 ddsFiles := ddsFiles st1 @ [(ddsFileName, enc_dds result)],
                                 processedTextures := (processedTextures st1)(texName \<mapsto> entry)\<rparr>)
                     | Inl err \<Rightarrow> st1)))"

definition convertTextures :: "browser \<Rightarrow> MaterialConfig list \<Rightarrow> exportState" where
  "convertTextures br materials =
     fold (\<lambda>mat st. fold (slotStep br) (mc_textures mat) st) materials
       \<lparr>textureEntries = [], ddsFiles = [], processedTextures = Map.empty, texCount = 0\<rparr>"

definition exportYdr ::
  "browser \<Rightarrow> ('f YdrXmlOptions \<Rightarrow> error + string) \<Rightarrow> string \<Rightarrow> 'f ParsedModel \<Rightarrow>
     MaterialConfig list \<Rightarrow> error + exported" where
  "exportYdr br generateYdrXml name model materials =
     (let st = convertTextures br materials
      in case generateYdrXml \<lparr>opt_name = name, opt_model = model, opt_materials = materials,
                              opt_textures = textureEntries st\<rparr> of
           Inl e \<Rightarrow> Inl e
         | Inr xmlContent \<Rightarrow>
             Inr \<lparr>archiveName = name @ ''.zip'',
                  archiveFiles =
                    (name @ ''.ydr.xml'', Inl xmlContent)
                    # map (\<lambda>(fileName, data). (name @ ''/'' @ fileName, Inr data)) (ddsFiles st)\<rparr>)"

section \<open>Specification vocabulary and example inputs\<close>

text \<open>
  Notions used to state and prove the properties below, and the concrete inputs at which
  the theorems are instantiated.
\<close>

definition vertexOf :: "'f attribute \<Rightarrow> idx \<Rightarrow> 'f list" where
  "vertexOf a k = [getX a k, getY a k, getZ a k]"

definition remapInv :: "('a \<times> nat) list \<Rightarrow> nat list \<Rightarrow> 'a list \<Rightarrow> bool" where
  "remapInv vertexRemap usedIndices ks \<longleftrightarrow>
     map fst vertexRemap = rev (remdups (rev ks)) \<and>
     map snd vertexRemap = [0..<length vertexRemap] \<and>
     length usedIndices = length ks \<and>
     (\<forall>i<length ks. usedIndices ! i < length vertexRemap \<and>
                     map fst vertexRemap ! (usedIndices ! i) = ks ! i)"

definition exampleAttr :: "int attribute" where
  "exampleAttr = \<lparr>attr_count = 10, itemSize = 3,
     getX = (\<lambda>k. case k of Some n \<Rightarrow> int n | None \<Rightarrow> - 1),
     getY = (\<lambda>k. case k of Some n \<Rightarrow> 10 * int n | None \<Rightarrow> - 1),
     getZ = (\<lambda>k. case k of Some n \<Rightarrow> 100 * int n | None \<Rightarrow> - 1),
     getW = (\<lambda>k. 1)\<rparr>"

definition exampleGeo :: "int geometry" where
  "exampleGeo = \<lparr>geo_index = Some [5, 3, 5, 7, 3, 9], geo_position = exampleAttr,
     geo_normal = None, geo_uv = None, geo_color = None, geo_groups = []\<rparr>"

definition exampleMesh :: "int ParsedMesh" where
  "exampleMesh = \<lparr>positions = [3, 30, 300, 5, 50, 500, 7, 70, 700],
           normals = [0, 0, 0, 0, 0, 0, 0, 0, 0], uvs = [0, 0, 0, 0, 0, 0],
           colors = None, indices = [0, 1, 2, 0], materialIndex = 0, materialName = ''m''\<rparr>"

definition digitVal :: "char \<Rightarrow> nat" where
  "digitVal c = (case map_of (zip ''0123456789'' [0..<10]) c of Some d \<Rightarrow> d | None \<Rightarrow> 0)"

definition natOfDigits :: "string \<Rightarrow> nat" where
  "natOfDigits s = foldl (\<lambda>acc c. 10 * acc + digitVal c) 0 s"

definition syntheticName :: "nat \<Rightarrow> string" where
  "syntheticName k = ''Material_'' @ decimal k"

definition unnamed :: "material option \<Rightarrow> bool" where
  "unnamed m = (case m of None \<Rightarrow> True | Some x \<Rightarrow> mat_name x = [])"

definition namesInv :: "'f extractState \<Rightarrow> bool" where
  "namesInv st \<longleftrightarrow>
     st_materialNames st = map syntheticName [0..<length (st_materialNames st)] \<and>
     (\<forall>s. st_materialMap st s = None \<longleftrightarrow> s \<notin> set (st_materialNames st)) \<and>
     (\<forall>m \<in> set (st_meshes st). materialIndex m < length (st_materialNames st) \<and>
                                materialName m = syntheticName (materialIndex m)) \<and>
     sorted_wrt (<) (map materialIndex (st_meshes st))"

definition registeredInv :: "'f extractState \<Rightarrow> bool" where
  "registeredInv st \<longleftrightarrow>
     (\<forall>s. st_materialMap st s = None \<longleftrightarrow> s \<notin> set (st_materialNames st)) \<and>
     (st_meshes st \<noteq> [] \<longrightarrow> st_materialNames st \<noteq> [])"

definition preparedGeometry :: "('f geometry \<Rightarrow> 'f attribute) \<Rightarrow> 'f meshNode \<Rightarrow> 'f geometry" where
  "preparedGeometry computeVertexNormals child =
     ensureNormals computeVertexNormals (ensureIndexed (node_geometry child))"

definition groupList ::
  "('f geometry \<Rightarrow> 'f attribute) \<Rightarrow> 'f meshNode list \<Rightarrow>
     ('f geometry \<times> material option list \<times> geoGroup) list" where
  \<comment> \<open>the groups in the order in which the two loops visit them, each with the geometry
      and the material array of its node\<close>
  "groupList computeVertexNormals drawables =
     concat (map (\<lambda>child.
                    map (\<lambda>grp. (preparedGeometry computeVertexNormals child,
                               materialsOf (node_material child), grp))
                        (groupsOf (preparedGeometry computeVertexNormals child)))
                 drawables)"

definition pickedMaterial :: "'f geometry \<times> material option list \<times> geoGroup \<Rightarrow> material option" where
  \<comment> \<open>the material the loop body takes for a group\<close>
  "pickedMaterial = (\<lambda>(geo, materials, grp).
     pickMaterial materials (case g_materialIndex grp of Some i \<Rightarrow> i | None \<Rightarrow> 0))"

definition groupMesh ::
  "nat \<times> 'f::{zero,one} geometry \<times> material option list \<times> geoGroup \<Rightarrow> 'f ParsedMesh option" where
  \<comment> \<open>the sub-mesh of a group, carrying the ordinal \<open>k\<close> and the name \<open>Material_<k>\<close>\<close>
  "groupMesh = (\<lambda>(k, geo, materials, grp).
     extractSubMesh geo (g_start grp) (g_count grp) k (syntheticName k))"

definition ownUnnamedMaterials :: "material option list \<Rightarrow> bool" where
  \<comment> \<open>no material has a name, and no material (nor the absence of one) occurs twice\<close>
  "ownUnnamedMaterials ms \<longleftrightarrow>
     list_all unnamed ms \<and> distinct (map (map_option mat_id) ms)"

definition exampleNode :: "int meshNode" where
  "exampleNode = \<lparr>node_geometry = exampleGeo, node_material = Single None\<rparr>"

definition exampleModel :: "int ParsedModel" where
  "exampleModel =
     \<lparr>model_name = ''m'',
      meshes = [\<lparr>positions = [5, 50, 500, 3, 30, 300, 7, 70, 700, 9, 90, 900],
                 normals = [5, 50, 500, 3, 30, 300, 7, 70, 700, 9, 90, 900],
                 uvs = [0, 0, 0, 0, 0, 0, 0, 0], colors = None,
                 indices = [0, 1, 0, 2, 1, 3], materialIndex = 0,
                 materialName = ''Material_0''\<rparr>],
      materialNames = [''Material_0'']\<rparr>"

definition extractedMesh :: "nat \<Rightarrow> string \<Rightarrow> int ParsedMesh" where
  \<comment> \<open>the sub-mesh of the one group of \<open>exampleGeo\<close>, with a material index and name\<close>
  "extractedMesh k n =
     \<lparr>positions = [5, 50, 500, 3, 30, 300, 7, 70, 700, 9, 90, 900],
      normals = [5, 50, 500, 3, 30, 300, 7, 70, 700, 9, 90, 900],
      uvs = [0, 0, 0, 0, 0, 0, 0, 0], colors = None,
      indices = [0, 1, 0, 2, 1, 3], materialIndex = k, materialName = n\<rparr>"

definition twoMeshModel :: "int ParsedModel" where
  "twoMeshModel =
     \<lparr>model_name = ''m'',
      meshes = [extractedMesh 0 ''Material_0'', extractedMesh 1 ''Material_1''],
      materialNames = [''Material_0'', ''Material_1'']\<rparr>"

definition unnamedNode :: "nat \<Rightarrow> int meshNode" where
  "unnamedNode i =
     \<lparr>node_geometry = exampleGeo, node_material = Single (Some \<lparr>mat_id = i, mat_name = []\<rparr>)\<rparr>"

definition namedNode :: "nat \<Rightarrow> string \<Rightarrow> int meshNode" where
  "namedNode i n =
     \<lparr>node_geometry = exampleGeo, node_material = Single (Some \<lparr>mat_id = i, mat_name = n\<rparr>)\<rparr>"

definition escapeChar :: "char \<Rightarrow> string" where
  "escapeChar c =
     (if c = CHR ''&'' then ''&amp;''
      else if c = CHR ''<'' then ''&lt;''
      else if c = CHR ''>'' then ''&gt;''
      else if c = CHR 0x22 then ''&quot;''
      else [c])"

definition convertedFrom :: "browser \<Rightarrow> (string \<times> TextureSlotData) list \<Rightarrow> TextureEntry \<Rightarrow> bool" where
  \<comment> \<open>the entry was made from a successful conversion of a file of one of the slots\<close>
  "convertedFrom br slots e \<longleftrightarrow>
     (\<exists>sampler slot file r.
        (sampler, slot) \<in> set slots \<and> slot_file slot = Some file \<and>
        encodeToDds br file None = Inr r \<and>
        te_name e = sanitizeTextureName (file_name file) \<and>
        te_width e = enc_width r \<and> te_height e = enc_height r \<and>
        te_format e = enc_format r \<and>
        te_fileName e = te_name e @ ''.dds'')"

definition exportInv :: "browser \<Rightarrow> (string \<times> TextureSlotData) list \<Rightarrow> exportState \<Rightarrow> bool" where
  "exportInv br slots st \<longleftrightarrow>
     (\<forall>e \<in> set (textureEntries st). convertedFrom br slots e) \<and>
     (\<forall>n e. processedTextures st n = Some e \<longrightarrow> convertedFrom br slots e \<and> te_name e = n) \<and>
     (\<forall>(sampler, slot) \<in> set slots. \<forall>file r.
         slot_file slot = Some file \<and> encodeToDds br file None = Inr r \<longrightarrow>
         (\<exists>e \<in> set (textureEntries st).
            te_name e = sanitizeTextureName (file_name file) \<and> te_samplerName e = sampler))"

definition exampleBrowser :: browser where
  "exampleBrowser =
     \<lparr>loadImage = (\<lambda>file. if file_bytes file = [] then None else Some (3, 5)),
      getImageData = (\<lambda>_ _ _. [9, 9, 9, 100])\<rparr>"

definition slotOf :: "string \<Rightarrow> bytes \<Rightarrow> TextureSlotData" where
  "slotOf fname content =
     \<lparr>slot_file = Some \<lparr>file_name = fname, file_bytes = content\<rparr>,
      slot_previewUrl = None, slot_width = 0, slot_height = 0\<rparr>"

definition exampleMaterials :: "MaterialConfig list" where
  "exampleMaterials =
     [\<lparr>mc_name = ''body'', mc_shaderName = ''default.sps'', mc_textures = []\<rparr>,
      \<lparr>mc_name = ''wall'', mc_shaderName = ''default.sps'',
       mc_textures = [(''DiffuseSampler'', slotOf ''Wall.png'' [1])]\<rparr>]"

definition wallEntry :: TextureEntry where
  "wallEntry = \<lparr>te_name = ''wall'', te_samplerName = ''DiffuseSampler'', te_width = 4,
     te_height = 4, te_format = DXT5, te_fileName = ''wall.dds''\<rparr>"

definition exampleBatch :: "MaterialConfig list" where
  "exampleBatch =
     [\<lparr>mc_name = ''wall'', mc_shaderName = ''normal.sps'',
       mc_textures = [(''DiffuseSampler'', slotOf ''bad.png'' []),
                      (''BumpSampler'', slotOf ''Wall.png'' [1])]\<rparr>]"

definition exampleSerializer :: "int YdrXmlOptions \<Rightarrow> error + string" where
  "exampleSerializer opts = Inr (concat (map te_name (opt_textures opts)))"

fun lastDigits :: "nat \<Rightarrow> nat \<Rightarrow> string" where
  \<comment> \<open>the \<open>k\<close> low-order decimal digits of \<open>m\<close>, leading zeros included\<close>
  "lastDigits 0 m = []"
| "lastDigits (Suc k) m = lastDigits k (m div 10) @ [digitChar (m mod 10)]"

definition dropTrailingZeros :: "string \<Rightarrow> string" where
  "dropTrailingZeros ds = rev (dropWhile (\<lambda>c. c = CHR ''0'') (rev ds))"

definition fractionText :: "nat \<Rightarrow> string" where
  \<comment> \<open>seven fractional digits without their trailing zeros, but at least one digit\<close>
  "fractionText m =
     (if dropTrailingZeros (lastDigits 7 m) = [] then ''0''
      else dropTrailingZeros (lastDigits 7 m))"

definition signText :: "rat \<Rightarrow> string" where
  "signText n = (if n < 0 then ''-'' else '''')"

definition scaled :: "nat \<Rightarrow> rat \<Rightarrow> nat" where
  \<comment> \<open>the integer nearest to \<open>\<bar>x\<bar> * 10 ^ fd\<close>, the larger one of two nearest\<close>
  "scaled fd x = nat \<lfloor>\<bar>x\<bar> * 10 ^ fd + 1 / 2\<rfloor>"

section \<open>Verification of the texture codec\<close>

subsection \<open>Power-of-two rounding\<close>

lemma pow2_loop_pow:
  assumes "n \<le> 2 ^ k" "\<forall>i<k. (2::int) ^ i < n" "j \<le> k"
  shows "pow2_loop (2 ^ j) n = Some (2 ^ k)"
  using assms
proof (induction "k - j" arbitrary: j)
  case 0
  then have "j = k" by simp
  then show ?case using 0 by (subst pow2_loop.simps) simp
next
  case (Suc d)
  then have lt: "j < k" by simp
  with Suc.prems have "(2::int) ^ j < n" by blast
  moreover have "pow2_loop (2 ^ Suc j) n = Some (2 ^ k)"
    using Suc lt by (intro Suc.hyps(1)) auto
  ultimately show ?case by (subst pow2_loop.simps) (simp add: mult.commute)
qed

lemma ex_least_pow2:
  assumes "0 < (n::int)"
  shows "\<exists>k. n \<le> 2 ^ k \<and> (\<forall>i<k. (2::int) ^ i < n)"
proof -
  have ex: "\<exists>k. n \<le> 2 ^ k"
  proof -
    have "nat n < 2 ^ nat n" by (rule less_exp)
    then have "int (nat n) < int (2 ^ nat n)" by (simp only: of_nat_less_iff)
    then have "n \<le> 2 ^ nat n" using assms by simp
    then show ?thesis ..
  qed
  define k where "k = (LEAST k. n \<le> 2 ^ k)"
  have a: "n \<le> 2 ^ k" unfolding k_def using ex by (rule LeastI_ex)
  have b: "\<forall>i<k. (2::int) ^ i < n"
  proof (intro allI impI)
    fix i assume "i < k"
    then have "\<not> n \<le> 2 ^ i" unfolding k_def by (rule not_less_Least)
    then show "(2::int) ^ i < n" by simp
  qed
  from a b show ?thesis by blast
qed

lemma nearestPowerOf2_at:
  assumes "0 < n" "n \<le> 2 ^ k" "\<forall>i<k. (2::int) ^ i < n"
  shows "nearestPowerOf2 n =
           Some (rat_of_int (if 0 < k \<and> n - 2 ^ (k - 1) < 2 ^ k - n \<and> (4::int) \<le> 2 ^ (k - 1)
                             then 2 ^ (k - 1) else 2 ^ k))"
proof -
  have loop: "pow2_loop 1 n = Some (2 ^ k)"
    using pow2_loop_pow [of n k 0] assms by simp
  show ?thesis
  proof (cases k)
    case 0
    then show ?thesis using assms(1) loop by (simp add: nearestPowerOf2_def)
  next
    case (Suc m)
    have c1: "rat_of_int n - 2 ^ m < 2 * 2 ^ m - rat_of_int n \<longleftrightarrow> n - 2 ^ m < 2 * 2 ^ m - n"
    proof -
      have "rat_of_int n - 2 ^ m = rat_of_int (n - 2 ^ m)" by simp
      moreover have "2 * 2 ^ m - rat_of_int n = rat_of_int (2 * 2 ^ m - n)" by simp
      ultimately show ?thesis by (simp only: of_int_less_iff)
    qed
    have c2: "(4::rat) \<le> 2 ^ m \<longleftrightarrow> (4::int) \<le> 2 ^ m"
    proof -
      have "(4::rat) = rat_of_int 4" by simp
      moreover have "(2::rat) ^ m = rat_of_int (2 ^ m)" by simp
      ultimately show ?thesis by (simp only: of_int_le_iff)
    qed
    show ?thesis using assms(1) loop Suc c1 c2 by (simp add: nearestPowerOf2_def Let_def)
  qed
qed

lemma nearestPowerOf2_ge1:
  assumes "nearestPowerOf2 n = Some w"
  shows "1 \<le> w"
proof (cases "0 < n")
  case False
  with assms show ?thesis by (simp add: nearestPowerOf2_def)
next
  case True
  then obtain k where k: "n \<le> 2 ^ k" "\<forall>i<k. (2::int) ^ i < n"
    using ex_least_pow2 by blast
  have "(1::int) \<le> (if 0 < k \<and> n - 2 ^ (k - 1) < 2 ^ k - n \<and> (4::int) \<le> 2 ^ (k - 1)
                      then 2 ^ (k - 1) else 2 ^ k)"
    by simp
  then have "(1::rat) \<le> rat_of_int (if 0 < k \<and> n - 2 ^ (k - 1) < 2 ^ k - n \<and> (4::int) \<le> 2 ^ (k - 1)
                      then 2 ^ (k - 1) else 2 ^ k)"
    by (simp only: of_int_1_le_iff)
  with nearestPowerOf2_at [OF True k] assms show ?thesis by simp
qed

lemma nearestPowerOf2_total: "\<exists>w. nearestPowerOf2 n = Some w"
proof (cases "0 < n")
  case False
  then show ?thesis by (simp add: nearestPowerOf2_def)
next
  case True
  then obtain k where k: "n \<le> 2 ^ k" "\<forall>i<k. (2::int) ^ i < n"
    using ex_least_pow2 by blast
  from nearestPowerOf2_at [OF True k] show ?thesis by blast
qed

text \<open>
  Claim C2. For every positive integer \<open>n\<close>, with \<open>2 ^ k\<close> the least power of two that
  is at least \<open>n\<close>, \<open>nearestPowerOf2\<close> returns (the loop terminates) and its value is
  \<open>2 ^ k\<close>, except that it is the next-lower power \<open>2 ^ (k - 1)\<close> when \<open>n\<close> is strictly
  closer to the lower power than to the upper one and the lower power is at least 4.
  In particular 258 is mapped to 256, 5 to 4 and 3 to 4.
\<close>

theorem nearestPowerOf2_rounding:
  "(\<forall>n>0. \<exists>k. n \<le> 2 ^ k \<and> (\<forall>i<k. (2::int) ^ i < n) \<and>
       nearestPowerOf2 n =
         Some (rat_of_int (if 0 < k \<and> n - 2 ^ (k - 1) < 2 ^ k - n \<and> (4::int) \<le> 2 ^ (k - 1)
                           then 2 ^ (k - 1) else 2 ^ k)))
   \<and> nearestPowerOf2 258 = Some 256
   \<and> nearestPowerOf2 5 = Some 4
   \<and> nearestPowerOf2 3 = Some 4"
proof (intro conjI allI impI)
  fix n :: int assume "0 < n"
  then obtain k where k: "n \<le> 2 ^ k" "\<forall>i<k. (2::int) ^ i < n"
    using ex_least_pow2 by blast
  with \<open>0 < n\<close> show "\<exists>k. n \<le> 2 ^ k \<and> (\<forall>i<k. (2::int) ^ i < n) \<and>
       nearestPowerOf2 n =
         Some (rat_of_int (if 0 < k \<and> n - 2 ^ (k - 1) < 2 ^ k - n \<and> (4::int) \<le> 2 ^ (k - 1)
                           then 2 ^ (k - 1) else 2 ^ k))"
    using nearestPowerOf2_at [of n k] by blast
next
  show "nearestPowerOf2 258 = Some 256"
    by (simp add: nearestPowerOf2_def pow2_loop.simps)
  show "nearestPowerOf2 5 = Some 4"
    by (simp add: nearestPowerOf2_def pow2_loop.simps)
  show "nearestPowerOf2 3 = Some 4"
    by (simp add: nearestPowerOf2_def pow2_loop.simps)
qed

theorem nearestPowerOf2_rounding_witness:
  "(0::int) < 11 \<and>
   (\<exists>k. (11::int) \<le> 2 ^ k \<and> (2::int) ^ (k - 1) < 11 \<and> nearestPowerOf2 11 = Some 8)"
proof -
  from nearestPowerOf2_rounding have
    "\<forall>n>0. \<exists>k. n \<le> 2 ^ k \<and> (\<forall>i<k. (2::int) ^ i < n) \<and>
       nearestPowerOf2 n =
         Some (rat_of_int (if 0 < k \<and> n - 2 ^ (k - 1) < 2 ^ k - n \<and> (4::int) \<le> 2 ^ (k - 1)
                           then 2 ^ (k - 1) else 2 ^ k))"
    by (rule conjunct1)
  then obtain k where k: "(11::int) \<le> 2 ^ k" "\<forall>i<k. (2::int) ^ i < 11"
    and r: "nearestPowerOf2 11 =
         Some (rat_of_int (if 0 < k \<and> (11::int) - 2 ^ (k - 1) < 2 ^ k - 11 \<and> (4::int) \<le> 2 ^ (k - 1)
                           then 2 ^ (k - 1) else 2 ^ k))"
    by (metis zero_less_numeral)
  have "k = 4"
  proof (rule ccontr)
    assume ne: "k \<noteq> 4"
    show False
    proof (cases "k < 4")
      case True
      then have "(2::int) ^ k \<le> 2 ^ 3" by (intro power_increasing) auto
      with k(1) show False by simp
    next
      case False
      with ne have "4 < k" by simp
      with k(2) have "(2::int) ^ 4 < 11" by blast
      then show False by simp
    qed
  qed
  with r have "nearestPowerOf2 11 = Some 8" by simp
  with \<open>k = 4\<close> show ?thesis by (intro conjI exI [of _ 4]) simp_all
qed

subsection \<open>Format selection\<close>

lemma hasAlpha_loop_iff:
  "hasAlpha_loop data i \<longleftrightarrow> (\<exists>k. i + 4 * k < length data \<and> data ! (i + 4 * k) < 250)"
proof (induction data i rule: hasAlpha_loop.induct)
  case (1 data i)
  show ?case
  proof (cases "i < length data")
    case False
    then show ?thesis by (subst hasAlpha_loop.simps) simp
  next
    case inb: True
    show ?thesis
    proof (cases "data ! i < 250")
      case True
      with inb have "i + 4 * 0 < length data \<and> data ! (i + 4 * 0) < 250" by simp
      then have "\<exists>k. i + 4 * k < length data \<and> data ! (i + 4 * k) < 250" by (rule exI)
      with inb True show ?thesis by (subst hasAlpha_loop.simps) simp
    next
      case False
      have step: "hasAlpha_loop data (i + 4) \<longleftrightarrow>
                  (\<exists>k. i + 4 + 4 * k < length data \<and> data ! (i + 4 + 4 * k) < 250)"
        using "1.IH" inb False by simp
      have "(\<exists>k. i + 4 + 4 * k < length data \<and> data ! (i + 4 + 4 * k) < 250) \<longleftrightarrow>
            (\<exists>k. i + 4 * k < length data \<and> data ! (i + 4 * k) < 250)" (is "?L \<longleftrightarrow> ?R")
      proof
        assume ?L
        then obtain k where "i + 4 + 4 * k < length data \<and> data ! (i + 4 + 4 * k) < 250" ..
        then have "i + 4 * Suc k < length data \<and> data ! (i + 4 * Suc k) < 250"
          by (simp add: add.assoc)
        then show ?R ..
      next
        assume ?R
        then obtain k where k: "i + 4 * k < length data" "data ! (i + 4 * k) < 250" by blast
        with False have "k \<noteq> 0" by (cases k) auto
        then obtain m where "k = Suc m" by (cases k) auto
        with k have "i + 4 + 4 * m < length data \<and> data ! (i + 4 + 4 * m) < 250"
          by (simp add: add.assoc)
        then show ?L ..
      qed
      with step inb False show ?thesis by (subst hasAlpha_loop.simps) simp
    qed
  qed
qed

lemma hasAlpha_iff:
  "hasAlpha data \<longleftrightarrow> (\<exists>k. 4 * k + 3 < length data \<and> data ! (4 * k + 3) < 250)"
  by (simp add: hasAlpha_def hasAlpha_loop_iff add.commute)

lemma decode_example:
  "decodeImageToRGBA \<lparr>loadImage = (\<lambda>_. Some (3, 5)), getImageData = (\<lambda>_ _ _. px)\<rparr>
      \<lparr>file_name = ''a.png'', file_bytes = []\<rparr> =
   Inr \<lparr>dec_data = px, dec_width = 4, dec_height = 4\<rparr>"
  by (simp add: decodeImageToRGBA_def nearestPowerOf2_def pow2_loop.simps capped_def)

lemma encode_example:
  "\<exists>r. encodeToDds \<lparr>loadImage = (\<lambda>_. Some (3, 5)), getImageData = (\<lambda>_ _ _. px)\<rparr>
          \<lparr>file_name = ''a.png'', file_bytes = []\<rparr> None = Inr r \<and>
        enc_width r = 4 \<and> enc_height r = 4"
  by (simp add: encodeToDds_def Let_def isDdsFile_def decode_example)

lemma encode_example_format:
  "\<exists>r. encodeToDds \<lparr>loadImage = (\<lambda>_. Some (3, 5)), getImageData = (\<lambda>_ _ _. px)\<rparr>
          \<lparr>file_name = ''a.png'', file_bytes = []\<rparr> (Some fmt) = Inr r \<and>
        enc_width r = 4 \<and> enc_height r = 4 \<and> enc_format r = fmt"
  by (simp add: encodeToDds_def Let_def isDdsFile_def decode_example)

text \<open>
  Claim C3. For a file that is not already a container and that the browser decodes to
  the pixel buffer \<open>dec_data d\<close>, \<open>encodeToDds\<close> succeeds and, without a format override,
  selects \<open>DXT5\<close> if and only if some pixel \<open>k\<close> has an alpha byte (offset \<open>4 * k + 3\<close>)
  strictly below 250, and \<open>DXT1\<close> otherwise; with an override it uses the overriding
  format whatever the alpha channel holds.
\<close>

theorem format_selection:
  assumes "\<not> isDdsFile (file_bytes f)" and "decodeImageToRGBA br f = Inr d"
  shows "\<exists>r. encodeToDds br f forceFormat = Inr r \<and>
             enc_format r =
               (case forceFormat of
                  Some forced \<Rightarrow> forced
                | None \<Rightarrow>
                    if (\<exists>k. 4 * k + 3 < length (dec_data d) \<and> dec_data d ! (4 * k + 3) < 250)
                    then DXT5 else DXT1)"
  using assms by (simp add: encodeToDds_def Let_def hasAlpha_iff split: option.split)

theorem format_selection_witness:
  "\<not> isDdsFile (file_bytes \<lparr>file_name = ''a.png'', file_bytes = []\<rparr>) \<and>
   decodeImageToRGBA \<lparr>loadImage = (\<lambda>_. Some (3, 5)), getImageData = (\<lambda>_ _ _. [9, 9, 9, 100])\<rparr>
      \<lparr>file_name = ''a.png'', file_bytes = []\<rparr> =
     Inr \<lparr>dec_data = [9, 9, 9, 100], dec_width = 4, dec_height = 4\<rparr> \<and>
   (\<exists>r. encodeToDds \<lparr>loadImage = (\<lambda>_. Some (3, 5)), getImageData = (\<lambda>_ _ _. [9, 9, 9, 100])\<rparr>
          \<lparr>file_name = ''a.png'', file_bytes = []\<rparr> None = Inr r \<and> enc_format r = DXT5) \<and>
   (\<exists>r. encodeToDds \<lparr>loadImage = (\<lambda>_. Some (3, 5)), getImageData = (\<lambda>_ _ _. [9, 9, 9, 100])\<rparr>
          \<lparr>file_name = ''a.png'', file_bytes = []\<rparr> (Some DXT1) = Inr r \<and> enc_format r = DXT1)"
proof -
  let ?br = "\<lparr>loadImage = (\<lambda>_. Some (3, 5)), getImageData = (\<lambda>_ _ _. [9, 9, 9, 100])\<rparr>"
  let ?f = "\<lparr>file_name = ''a.png'', file_bytes = []\<rparr>"
  let ?d = "\<lparr>dec_data = [9, 9, 9, 100], dec_width = 4, dec_height = 4\<rparr>"
  have n: "\<not> isDdsFile (file_bytes ?f)" by (simp add: isDdsFile_def)
  have d: "decodeImageToRGBA ?br ?f = Inr ?d" by (rule decode_example)
  have "4 * 0 + 3 < length (dec_data ?d) \<and> dec_data ?d ! (4 * 0 + 3) < 250" by simp
  then have a: "\<exists>k. 4 * k + 3 < length (dec_data ?d) \<and> dec_data ?d ! (4 * k + 3) < 250" ..
  from format_selection [OF n d, of None] a
  have 1: "\<exists>r. encodeToDds ?br ?f None = Inr r \<and> enc_format r = DXT5" by simp
  from format_selection [OF n d, of "Some DXT1"]
  have 2: "\<exists>r. encodeToDds ?br ?f (Some DXT1) = Inr r \<and> enc_format r = DXT1" by simp
  from n d 1 2 show ?thesis by blast
qed

subsection \<open>Container header\<close>

lemma length_setUint32 [simp]: "length (setUint32 off v buf) = length buf"
  by (simp add: setUint32_def Let_def)

lemma le_bytes_linear:
  fixes u q1 q2 q3 a0 a1 a2 :: int
  assumes "u = 256 * q1 + a0" "q1 = 256 * q2 + a1" "q2 = 256 * q3 + a2"
  shows "a0 + 256 * a1 + 65536 * a2 + 16777216 * q3 = u"
  using assms by simp

lemma le_bytes_recompose:
  fixes u :: int
  assumes "0 \<le> u" "u < 2 ^ 32"
  shows "u mod 256 + 256 * (u div 256 mod 256) + 65536 * (u div 65536 mod 256)
           + 16777216 * (u div 16777216 mod 256) = u"
proof -
  have top: "u div 16777216 mod 256 = u div 16777216" using assms by simp
  have a: "u = 256 * (u div 256) + u mod 256" by simp
  have b: "u div 256 = 256 * (u div 65536) + u div 256 mod 256"
  proof -
    have "u div 256 = 256 * (u div 256 div 256) + u div 256 mod 256" by simp
    moreover have "u div 256 div 256 = u div 65536" by (simp add: div_mult2_eq [symmetric])
    ultimately show ?thesis by (simp only:)
  qed
  have c: "u div 65536 = 256 * (u div 16777216) + u div 65536 mod 256"
  proof -
    have "u div 65536 = 256 * (u div 65536 div 256) + u div 65536 mod 256" by simp
    moreover have "u div 65536 div 256 = u div 16777216" by (simp add: div_mult2_eq [symmetric])
    ultimately show ?thesis by (simp only:)
  qed
  show ?thesis unfolding top by (rule le_bytes_linear [OF a b c])
qed

lemma uint_byte: "uint (word_of_int (k mod 256) :: 8 word) = k mod 256"
  by (simp add: uint_word_of_int take_bit_eq_mod)

lemma getUint32_setUint32_same:
  assumes "off + 4 \<le> length buf"
  shows "getUint32 (setUint32 off v buf) off = Inr (v mod 2 ^ 32)"
proof -
  define u where "u = v mod 2 ^ 32"
  have u: "0 \<le> u" "u < 2 ^ 32" by (simp_all add: u_def)
  have "getUint32 (setUint32 off v buf) off =
          Inr (u mod 256 + 256 * (u div 256 mod 256) + 65536 * (u div 65536 mod 256)
               + 16777216 * (u div 16777216 mod 256))"
    using assms unfolding getUint32_def setUint32_def Let_def u_def [symmetric]
    by (simp add: uint_byte)
  also have "\<dots> = Inr u"
    by (simp only: le_bytes_recompose [OF u])
  finally show ?thesis by (simp only: u_def)
qed

lemma getUint32_setUint32_other:
  assumes "off' + 4 \<le> off \<or> off + 4 \<le> off'"
  shows "getUint32 (setUint32 off' v buf) off = getUint32 buf off"
  using assms unfolding getUint32_def setUint32_def Let_def by auto

lemma fold_update_length:
  "length (fold (\<lambda>i out. out[g i := h i]) xs buf) = length buf"
  by (induction xs arbitrary: buf) simp_all

lemma fold_update_nth_below:
  assumes "\<forall>i \<in> set xs. j \<noteq> g i"
  shows "fold (\<lambda>i out. out[g i := h i]) xs buf ! j = buf ! j"
  using assms by (induction xs arbitrary: buf) simp_all

lemma length_copyInto [simp]: "length (copyInto src off out) = length out"
  by (simp add: copyInto_def fold_update_length)

lemma copyInto_nth_below: "j < off \<Longrightarrow> copyInto src off out ! j = out ! j"
  unfolding copyInto_def by (rule fold_update_nth_below) auto

lemma getUint32_copyInto:
  assumes "off + 4 \<le> dst"
  shows "getUint32 (copyInto src dst buf) off = getUint32 buf off"
  using assms by (simp add: getUint32_def copyInto_nth_below)

lemma length_writeDdsHeader [simp]: "length (writeDdsHeader w h fmt buf) = length buf"
  by (simp add: writeDdsHeader_def Let_def)

lemma writeDdsHeader_fields:
  assumes "128 \<le> length buf"
  shows "getUint32 (writeDdsHeader w h fmt buf) 0 = Inr (DDS_MAGIC mod 2 ^ 32)"
    and "getUint32 (writeDdsHeader w h fmt buf) 12 = Inr (h mod 2 ^ 32)"
    and "getUint32 (writeDdsHeader w h fmt buf) 16 = Inr (w mod 2 ^ 32)"
    and "getUint32 (writeDdsHeader w h fmt buf) 20 =
           Inr ((blocksOf w * blocksOf h * (if fmt = DXT1 then 8 else 16)) mod 2 ^ 32)"
    and "getUint32 (writeDdsHeader w h fmt buf) 84 =
           Inr ((if fmt = DXT1 then FOURCC_DXT1 else FOURCC_DXT5) mod 2 ^ 32)"
  using assms unfolding writeDdsHeader_def Let_def
  by (simp_all add: getUint32_setUint32_other getUint32_setUint32_same)

lemma length_buildDdsFile: "length (buildDdsFile cdata w h fmt) = 128 + length cdata"
  by (simp add: buildDdsFile_def Let_def)

lemma buildDdsFile_fields:
  shows "getUint32 (buildDdsFile cdata w h fmt) 0 = Inr DDS_MAGIC"
    and "getUint32 (buildDdsFile cdata w h fmt) 12 = Inr (h mod 2 ^ 32)"
    and "getUint32 (buildDdsFile cdata w h fmt) 16 = Inr (w mod 2 ^ 32)"
    and "getUint32 (buildDdsFile cdata w h fmt) 20 =
           Inr ((blocksOf w * blocksOf h * (if fmt = DXT1 then 8 else 16)) mod 2 ^ 32)"
    and "getUint32 (buildDdsFile cdata w h fmt) 84 =
           Inr (if fmt = DXT1 then FOURCC_DXT1 else FOURCC_DXT5)"
proof -
  have len: "128 \<le> length (replicate (128 + length cdata) (0 :: 8 word))"
    by (simp only: length_replicate le_add1)
  note f = writeDdsHeader_fields [OF len, of w h fmt]
  show "getUint32 (buildDdsFile cdata w h fmt) 0 = Inr DDS_MAGIC"
    unfolding buildDdsFile_def Let_def
    by (subst getUint32_copyInto, simp, subst f(1)) (simp add: DDS_MAGIC_def)
  show "getUint32 (buildDdsFile cdata w h fmt) 12 = Inr (h mod 2 ^ 32)"
    unfolding buildDdsFile_def Let_def
    by (subst getUint32_copyInto, simp, subst f(2)) (rule refl)
  show "getUint32 (buildDdsFile cdata w h fmt) 16 = Inr (w mod 2 ^ 32)"
    unfolding buildDdsFile_def Let_def
    by (subst getUint32_copyInto, simp, subst f(3)) (rule refl)
  show "getUint32 (buildDdsFile cdata w h fmt) 20 =
           Inr ((blocksOf w * blocksOf h * (if fmt = DXT1 then 8 else 16)) mod 2 ^ 32)"
    unfolding buildDdsFile_def Let_def
    by (subst getUint32_copyInto, simp, subst f(4)) (rule refl)
  show "getUint32 (buildDdsFile cdata w h fmt) 84 =
           Inr (if fmt = DXT1 then FOURCC_DXT1 else FOURCC_DXT5)"
    unfolding buildDdsFile_def Let_def
    by (subst getUint32_copyInto, simp, subst f(5)) (simp add: FOURCC_DXT1_def FOURCC_DXT5_def)
qed

lemma getUint32_take:
  assumes "off + 4 \<le> n" "n \<le> length buf"
  shows "getUint32 (take n buf) off = getUint32 buf off"
  using assms by (simp add: getUint32_def)

lemma isDdsFile_buildDdsFile: "isDdsFile (buildDdsFile cdata w h fmt)"
  by (simp add: isDdsFile_def length_buildDdsFile buildDdsFile_fields(1))

lemma getDdsDimensions_buildDdsFile:
  "getDdsDimensions \<lparr>file_name = nm, file_bytes = buildDdsFile cdata w h fmt\<rparr> =
     Inr (w mod 2 ^ 32, h mod 2 ^ 32)"
proof -
  have t: "\<And>off. off + 4 \<le> 128 \<Longrightarrow>
             getUint32 (take 128 (buildDdsFile cdata w h fmt)) off =
             getUint32 (buildDdsFile cdata w h fmt) off"
    by (rule getUint32_take) (simp_all add: length_buildDdsFile)
  have "getUint32 (take 128 (buildDdsFile cdata w h fmt)) 0 = Inr DDS_MAGIC"
       "getUint32 (take 128 (buildDdsFile cdata w h fmt)) 12 = Inr (h mod 2 ^ 32)"
       "getUint32 (take 128 (buildDdsFile cdata w h fmt)) 16 = Inr (w mod 2 ^ 32)"
    by (simp_all add: t buildDdsFile_fields)
  then show ?thesis by (simp add: getDdsDimensions_def Let_def)
qed

lemma fourcc_distinct: "FOURCC_DXT1 \<noteq> FOURCC_DXT5"
  by (simp add: FOURCC_DXT1_def FOURCC_DXT5_def)

lemma passthrough_buildDdsFile:
  "encodeToDds br \<lparr>file_name = nm, file_bytes = buildDdsFile cdata w h fmt\<rparr> force =
     Inr \<lparr>enc_dds = buildDdsFile cdata w h fmt, enc_format = fmt,
          enc_width = w mod 2 ^ 32, enc_height = h mod 2 ^ 32\<rparr>"
  using fourcc_distinct
  by (cases fmt)
     (simp_all add: encodeToDds_def Let_def isDdsFile_buildDdsFile
        getDdsDimensions_buildDdsFile buildDdsFile_fields(5))

lemma capped_bounds: "1 \<le> w \<Longrightarrow> 1 \<le> capped w \<and> capped w \<le> 4096"
  unfolding capped_def by (simp add: le_floor_iff floor_le_iff min_def)

lemma decodeImageToRGBA_bounds:
  assumes "decodeImageToRGBA br f = Inr d"
  shows "1 \<le> dec_width d \<and> dec_width d \<le> 4096 \<and> 1 \<le> dec_height d \<and> dec_height d \<le> 4096"
  using assms
  by (auto simp: decodeImageToRGBA_def Let_def
           split: option.splits prod.splits
           dest!: nearestPowerOf2_ge1 capped_bounds)

lemma encodeToDds_image:
  assumes "\<not> isDdsFile (file_bytes f)" "encodeToDds br f force = Inr r"
  shows "\<exists>d cdata. decodeImageToRGBA br f = Inr d \<and>
           cdata = (if enc_format r = DXT1
                    then compressBC1 (dec_data d) (dec_width d) (dec_height d)
                    else compressBC3 (dec_data d) (dec_width d) (dec_height d)) \<and>
           r = \<lparr>enc_dds = buildDdsFile cdata (dec_width d) (dec_height d) (enc_format r),
                enc_format = enc_format r, enc_width = dec_width d, enc_height = dec_height d\<rparr>"
  using assms by (auto simp: encodeToDds_def Let_def split: sum.splits)

text \<open>
  Claim C6. Reading back a container built by the codec recovers what it was built
  from. For a width and a height that fit the 32-bit header fields, the header of
  \<open>buildDdsFile\<close> holds the width at offset 16, the height at offset 12 and the
  four-character code of the format at offset 84, and the codec's own header reader (the
  pass-through path of \<open>encodeToDds\<close>) returns exactly that width, height and format.
  Every container the codec builds from an image (its sizes are capped at 4096) is read
  back to the very result that was returned when it was built.
\<close>

theorem dds_header_roundtrip:
  "(0 \<le> w \<and> w < 2 ^ 32 \<and> 0 \<le> h \<and> h < 2 ^ 32 \<longrightarrow>
      getUint32 (buildDdsFile cdata w h fmt) 16 = Inr w \<and>
      getUint32 (buildDdsFile cdata w h fmt) 12 = Inr h \<and>
      getUint32 (buildDdsFile cdata w h fmt) 84 =
        Inr (if fmt = DXT1 then FOURCC_DXT1 else FOURCC_DXT5) \<and>
      encodeToDds br \<lparr>file_name = nm, file_bytes = buildDdsFile cdata w h fmt\<rparr> force =
        Inr \<lparr>enc_dds = buildDdsFile cdata w h fmt, enc_format = fmt,
             enc_width = w, enc_height = h\<rparr>)
   \<and> (\<not> isDdsFile (file_bytes f) \<and> encodeToDds ibr f iforce = Inr r \<longrightarrow>
        encodeToDds br' \<lparr>file_name = nm', file_bytes = enc_dds r\<rparr> force' = Inr r)"
proof (intro conjI impI)
  assume b: "0 \<le> w \<and> w < 2 ^ 32 \<and> 0 \<le> h \<and> h < 2 ^ 32"
  then have m: "w mod 2 ^ 32 = w" "h mod 2 ^ 32 = h" by simp_all
  show "getUint32 (buildDdsFile cdata w h fmt) 16 = Inr w"
    using buildDdsFile_fields(3) [of cdata w h fmt] m by (simp only:)
  show "getUint32 (buildDdsFile cdata w h fmt) 12 = Inr h"
    using buildDdsFile_fields(2) [of cdata w h fmt] m by (simp only:)
  show "getUint32 (buildDdsFile cdata w h fmt) 84 =
          Inr (if fmt = DXT1 then FOURCC_DXT1 else FOURCC_DXT5)"
    by (rule buildDdsFile_fields(5))
  show "encodeToDds br \<lparr>file_name = nm, file_bytes = buildDdsFile cdata w h fmt\<rparr> force =
        Inr \<lparr>enc_dds = buildDdsFile cdata w h fmt, enc_format = fmt,
             enc_width = w, enc_height = h\<rparr>"
    using passthrough_buildDdsFile [of br nm cdata w h fmt force] m by (simp only:)
next
  assume a: "\<not> isDdsFile (file_bytes f) \<and> encodeToDds ibr f iforce = Inr r"
  then obtain d cdata where d: "decodeImageToRGBA ibr f = Inr d"
    and r: "r = \<lparr>enc_dds = buildDdsFile cdata (dec_width d) (dec_height d) (enc_format r),
                enc_format = enc_format r, enc_width = dec_width d, enc_height = dec_height d\<rparr>"
    using encodeToDds_image [of f ibr iforce r] by blast
  from decodeImageToRGBA_bounds [OF d]
  have m: "dec_width d mod 2 ^ 32 = dec_width d" "dec_height d mod 2 ^ 32 = dec_height d"
    by simp_all
  have "encodeToDds br' \<lparr>file_name = nm',
           file_bytes = buildDdsFile cdata (dec_width d) (dec_height d) (enc_format r)\<rparr> force' =
        Inr \<lparr>enc_dds = buildDdsFile cdata (dec_width d) (dec_height d) (enc_format r),
             enc_format = enc_format r, enc_width = dec_width d, enc_height = dec_height d\<rparr>"
    using passthrough_buildDdsFile [of br' nm' cdata "dec_width d" "dec_height d" "enc_format r" force'] m
    by (simp only:)
  moreover have "enc_dds r = buildDdsFile cdata (dec_width d) (dec_height d) (enc_format r)"
    by (subst r) simp
  ultimately show "encodeToDds br' \<lparr>file_name = nm', file_bytes = enc_dds r\<rparr> force' = Inr r"
    using r by simp
qed

theorem dds_header_roundtrip_witness:
  "((0::int) \<le> 256 \<and> (256::int) < 2 ^ 32 \<and> (0::int) \<le> 128 \<and> (128::int) < 2 ^ 32) \<and>
   getUint32 (buildDdsFile [1, 2, 3] 256 128 DXT5) 16 = Inr 256 \<and>
   getUint32 (buildDdsFile [1, 2, 3] 256 128 DXT5) 12 = Inr 128 \<and>
   getUint32 (buildDdsFile [1, 2, 3] 256 128 DXT5) 84 = Inr FOURCC_DXT5 \<and>
   encodeToDds \<lparr>loadImage = (\<lambda>_. None), getImageData = (\<lambda>_ _ _. [])\<rparr>
      \<lparr>file_name = ''t.dds'', file_bytes = buildDdsFile [1, 2, 3] 256 128 DXT5\<rparr> None =
     Inr \<lparr>enc_dds = buildDdsFile [1, 2, 3] 256 128 DXT5, enc_format = DXT5,
          enc_width = 256, enc_height = 128\<rparr> \<and>
   \<not> isDdsFile (file_bytes \<lparr>file_name = ''a.png'', file_bytes = []\<rparr>) \<and>
   (\<exists>r. encodeToDds \<lparr>loadImage = (\<lambda>_. Some (3, 5)),
                       getImageData = (\<lambda>_ _ _. [9, 9, 9, 100])\<rparr>
            \<lparr>file_name = ''a.png'', file_bytes = []\<rparr> None = Inr r \<and>
        encodeToDds \<lparr>loadImage = (\<lambda>_. None), getImageData = (\<lambda>_ _ _. [])\<rparr>
            \<lparr>file_name = ''a.dds'', file_bytes = enc_dds r\<rparr> None = Inr r)"
proof -
  have b: "(0::int) \<le> 256 \<and> (256::int) < 2 ^ 32 \<and> (0::int) \<le> 128 \<and> (128::int) < 2 ^ 32"
    by simp
  have n: "\<not> isDdsFile (file_bytes \<lparr>file_name = ''a.png'', file_bytes = []\<rparr>)"
    by (simp add: isDdsFile_def)
  obtain r where r:
    "encodeToDds \<lparr>loadImage = (\<lambda>_. Some (3, 5)), getImageData = (\<lambda>_ _ _. [9, 9, 9, 100])\<rparr>
        \<lparr>file_name = ''a.png'', file_bytes = []\<rparr> None = Inr r"
    using encode_example by blast
  note t = dds_header_roundtrip
    [where w = 256 and h = 128 and cdata = "[1, 2, 3]" and fmt = DXT5
       and br = "\<lparr>loadImage = (\<lambda>_. None), getImageData = (\<lambda>_ _ _. [])\<rparr>"
       and nm = "''t.dds''" and force = None
       and f = "\<lparr>file_name = ''a.png'', file_bytes = []\<rparr>"
       and ibr = "\<lparr>loadImage = (\<lambda>_. Some (3, 5)),
                   getImageData = (\<lambda>_ _ _. [9, 9, 9, 100])\<rparr>"
       and iforce = None and r = r
       and br' = "\<lparr>loadImage = (\<lambda>_. None), getImageData = (\<lambda>_ _ _. [])\<rparr>"
       and nm' = "''a.dds''" and force' = None]
  from t b have p1:
    "getUint32 (buildDdsFile [1, 2, 3] 256 128 DXT5) 16 = Inr 256 \<and>
     getUint32 (buildDdsFile [1, 2, 3] 256 128 DXT5) 12 = Inr 128 \<and>
     getUint32 (buildDdsFile [1, 2, 3] 256 128 DXT5) 84 = Inr FOURCC_DXT5 \<and>
     encodeToDds \<lparr>loadImage = (\<lambda>_. None), getImageData = (\<lambda>_ _ _. [])\<rparr>
        \<lparr>file_name = ''t.dds'', file_bytes = buildDdsFile [1, 2, 3] 256 128 DXT5\<rparr> None =
       Inr \<lparr>enc_dds = buildDdsFile [1, 2, 3] 256 128 DXT5, enc_format = DXT5,
            enc_width = 256, enc_height = 128\<rparr>"
    by simp
  from t n r have p2:
    "encodeToDds \<lparr>loadImage = (\<lambda>_. None), getImageData = (\<lambda>_ _ _. [])\<rparr>
        \<lparr>file_name = ''a.dds'', file_bytes = enc_dds r\<rparr> None = Inr r"
    by blast
  from b p1 n r p2 show ?thesis by blast
qed

subsection \<open>Container size\<close>

lemma length_encodeBC1Block [simp]:
  "length (encodeBC1Block block output offset) = length output"
  by (simp add: encodeBC1Block_def Let_def split_beta)

lemma length_encodeBC3AlphaBlock [simp]:
  "length (encodeBC3AlphaBlock block output offset) = length output"
  by (simp add: encodeBC3AlphaBlock_def Let_def split_beta)

lemma fold_fst_length:
  assumes "\<And>x out off. length (fst (step x (out, off))) = length out"
  shows "length (fst (fold step xs st)) = length (fst st)"
proof (induction xs arbitrary: st)
  case Nil
  show ?case by simp
next
  case (Cons x xs)
  have "length (fst (fold step xs (step x st))) = length (fst (step x st))"
    by (rule Cons.IH)
  also have "\<dots> = length (fst st)"
    using assms [of x "fst st" "snd st"] by simp
  finally show ?case by simp
qed

lemma length_compressBC1:
  "length (compressBC1 data w h) = nat (blocksOf w * blocksOf h * 8)"
  unfolding compressBC1_def Let_def
  by (subst fold_fst_length) (simp_all add: split_beta)

lemma length_compressBC3:
  "length (compressBC3 data w h) = nat (blocksOf w * blocksOf h * 16)"
  unfolding compressBC3_def Let_def
  by (subst fold_fst_length) (simp_all add: split_beta Let_def)

lemma blocksOf_ceiling: "1 \<le> w \<Longrightarrow> blocksOf w = \<lceil>rat_of_int w / 4\<rceil>"
  unfolding blocksOf_def by (simp add: max_def)

lemma blocksOf_pos: "1 \<le> blocksOf w"
  by (simp add: blocksOf_def)

text \<open>
  Claim C10. For every width and height of at least 1 and either format, the container
  built from the compressed payload has exactly
  \<open>128 + \<lceil>width / 4\<rceil> * \<lceil>height / 4\<rceil> * blockSize\<close> bytes (block size 8 for \<open>DXT1\<close>, 16
  for \<open>DXT5\<close>); the linear-size field at offset 20 equals the byte length of the payload
  whenever that length fits the 32-bit field, which holds for every container the codec
  builds from an image, where both sizes are between 1 and 4096.
\<close>

theorem dds_container_size:
  "(1 \<le> w \<and> 1 \<le> h \<longrightarrow>
      length (buildDdsFile (if fmt = DXT1 then compressBC1 data w h else compressBC3 data w h)
                w h fmt) =
      128 + nat (\<lceil>rat_of_int w / 4\<rceil> * \<lceil>rat_of_int h / 4\<rceil> * (if fmt = DXT1 then 8 else 16)))
   \<and> (1 \<le> w \<and> 1 \<le> h \<and>
        \<lceil>rat_of_int w / 4\<rceil> * \<lceil>rat_of_int h / 4\<rceil> * (if fmt = DXT1 then 8 else 16) < 2 ^ 32 \<longrightarrow>
      getUint32 (buildDdsFile (if fmt = DXT1 then compressBC1 data w h else compressBC3 data w h)
                   w h fmt) 20 =
      Inr (int (length (if fmt = DXT1 then compressBC1 data w h else compressBC3 data w h))))
   \<and> (\<not> isDdsFile (file_bytes f) \<and> encodeToDds br f force = Inr r \<longrightarrow>
        1 \<le> enc_width r \<and> 1 \<le> enc_height r \<and>
        length (enc_dds r) =
          128 + nat (\<lceil>rat_of_int (enc_width r) / 4\<rceil> * \<lceil>rat_of_int (enc_height r) / 4\<rceil>
                     * (if enc_format r = DXT1 then 8 else 16)) \<and>
        getUint32 (enc_dds r) 20 = Inr (int (length (enc_dds r)) - 128))"
proof -
  have len: "length (if fm = DXT1 then compressBC1 dat a b else compressBC3 dat a b) =
               nat (blocksOf a * blocksOf b * (if fm = DXT1 then 8 else 16))" for fm dat a b
    by (simp add: length_compressBC1 length_compressBC3)
  have pos: "0 \<le> blocksOf a * blocksOf b * (if fm = DXT1 then 8 else 16)" for a b fm
    using blocksOf_pos [of a] blocksOf_pos [of b] by simp
  have part1: "length (buildDdsFile (if fm = DXT1 then compressBC1 dat a b else compressBC3 dat a b)
                a b fm) =
      128 + nat (\<lceil>rat_of_int a / 4\<rceil> * \<lceil>rat_of_int b / 4\<rceil> * (if fm = DXT1 then 8 else 16))"
    if "1 \<le> a" "1 \<le> b" for fm dat a b
    using that by (simp only: length_buildDdsFile len blocksOf_ceiling)
  have part2: "getUint32 (buildDdsFile (if fm = DXT1 then compressBC1 dat a b else compressBC3 dat a b)
                   a b fm) 20 =
      Inr (int (length (if fm = DXT1 then compressBC1 dat a b else compressBC3 dat a b)))"
    if "1 \<le> a" "1 \<le> b"
       "\<lceil>rat_of_int a / 4\<rceil> * \<lceil>rat_of_int b / 4\<rceil> * (if fm = DXT1 then 8 else 16) < 2 ^ 32"
    for fm dat a b
  proof -
    let ?n = "blocksOf a * blocksOf b * (if fm = DXT1 then 8 else 16)"
    have lt: "?n < 2 ^ 32" using that by (simp only: blocksOf_ceiling)
    have "?n mod 2 ^ 32 = ?n" using pos [of a b fm] lt by (rule mod_pos_pos_trivial)
    moreover have "int (nat ?n) = ?n" using pos [of a b fm] by simp
    ultimately show ?thesis
      by (simp only: buildDdsFile_fields(4) len)
  qed
  have part3: "1 \<le> enc_width r \<and> 1 \<le> enc_height r \<and>
        length (enc_dds r) =
          128 + nat (\<lceil>rat_of_int (enc_width r) / 4\<rceil> * \<lceil>rat_of_int (enc_height r) / 4\<rceil>
                     * (if enc_format r = DXT1 then 8 else 16)) \<and>
        getUint32 (enc_dds r) 20 = Inr (int (length (enc_dds r)) - 128)"
    if a: "\<not> isDdsFile (file_bytes f) \<and> encodeToDds br f force = Inr r"
  proof -
    from a obtain d cdata where d: "decodeImageToRGBA br f = Inr d"
      and c: "cdata = (if enc_format r = DXT1
                    then compressBC1 (dec_data d) (dec_width d) (dec_height d)
                    else compressBC3 (dec_data d) (dec_width d) (dec_height d))"
      and r: "r = \<lparr>enc_dds = buildDdsFile cdata (dec_width d) (dec_height d) (enc_format r),
                enc_format = enc_format r, enc_width = dec_width d, enc_height = dec_height d\<rparr>"
      using encodeToDds_image [of f br force r] by blast
    have ew: "enc_width r = dec_width d" by (subst r) simp
    have eh: "enc_height r = dec_height d" by (subst r) simp
    have ed: "enc_dds r = buildDdsFile cdata (dec_width d) (dec_height d) (enc_format r)"
      by (subst r) simp
    from decodeImageToRGBA_bounds [OF d]
    have b: "1 \<le> dec_width d" "dec_width d \<le> 4096" "1 \<le> dec_height d" "dec_height d \<le> 4096"
      by simp_all
    have cw: "\<lceil>rat_of_int (dec_width d) / 4\<rceil> \<le> 1024" using b(2) by (simp add: ceiling_le_iff)
    have ch: "\<lceil>rat_of_int (dec_height d) / 4\<rceil> \<le> 1024" using b(4) by (simp add: ceiling_le_iff)
    have cw0: "0 \<le> \<lceil>rat_of_int (dec_width d) / 4\<rceil>" using b(1) by (simp add: le_ceiling_iff)
    have ch0: "0 \<le> \<lceil>rat_of_int (dec_height d) / 4\<rceil>" using b(3) by (simp add: le_ceiling_iff)
    have "\<lceil>rat_of_int (dec_width d) / 4\<rceil> * \<lceil>rat_of_int (dec_height d) / 4\<rceil> \<le> 1024 * 1024"
      using cw ch cw0 ch0 by (intro mult_mono) simp_all
    then have lt: "\<lceil>rat_of_int (dec_width d) / 4\<rceil> * \<lceil>rat_of_int (dec_height d) / 4\<rceil>
                     * (if enc_format r = DXT1 then 8 else 16) < 2 ^ 32"
      by (simp add: mult.commute)
    have l: "length (enc_dds r) =
          128 + nat (\<lceil>rat_of_int (dec_width d) / 4\<rceil> * \<lceil>rat_of_int (dec_height d) / 4\<rceil>
                     * (if enc_format r = DXT1 then 8 else 16))"
      unfolding ed c by (rule part1) (rule b)+
    have g: "getUint32 (enc_dds r) 20 = Inr (int (length cdata))"
      unfolding ed c using b(1) b(3) lt by (rule part2)
    have "int (length (enc_dds r)) - 128 = int (length cdata)"
      unfolding ed by (simp add: length_buildDdsFile)
    with g l b ew eh show ?thesis by simp
  qed
  from part1 part2 part3 show ?thesis by blast
qed

theorem dds_container_size_witness:
  "((1::int) \<le> 5 \<and> (1::int) \<le> 1) \<and>
   length (buildDdsFile (compressBC1 [255, 0, 0, 255, 0, 255, 0, 255] 5 1) 5 1 DXT1) = 128 + 2 * 1 * 8 \<and>
   getUint32 (buildDdsFile (compressBC1 [255, 0, 0, 255, 0, 255, 0, 255] 5 1) 5 1 DXT1) 20 = Inr 16 \<and>
   \<not> isDdsFile (file_bytes \<lparr>file_name = ''a.png'', file_bytes = []\<rparr>) \<and>
   (\<exists>r. encodeToDds \<lparr>loadImage = (\<lambda>_. Some (3, 5)), getImageData = (\<lambda>_ _ _. [9, 9, 9, 100])\<rparr>
          \<lparr>file_name = ''a.png'', file_bytes = []\<rparr> (Some DXT5) = Inr r \<and>
        length (enc_dds r) = 128 + 1 * 1 * 16 \<and>
        getUint32 (enc_dds r) 20 = Inr 16)"
proof -
  let ?data = "[255, 0, 0, 255, 0, 255, 0, 255] :: bytes"
  let ?br = "\<lparr>loadImage = (\<lambda>_. Some (3, 5)), getImageData = (\<lambda>_ _ _. [9, 9, 9, 100])\<rparr>"
  let ?f = "\<lparr>file_name = ''a.png'', file_bytes = []\<rparr>"
  have n: "\<not> isDdsFile (file_bytes ?f)" by (simp add: isDdsFile_def)
  obtain r where r: "encodeToDds ?br ?f (Some DXT5) = Inr r"
    and rw: "enc_width r = 4" and rh: "enc_height r = 4" and rf: "enc_format r = DXT5"
    using encode_example_format [of "[9, 9, 9, 100]" DXT5] by blast
  note t = dds_container_size
    [where w = 5 and h = 1 and fmt = DXT1 and data = ?data
       and f = ?f and br = ?br and force = "Some DXT5" and r = r]
  have c5: "\<lceil>rat_of_int 5 / 4\<rceil> = 2" by (simp add: ceiling_eq_iff)
  have c1: "\<lceil>rat_of_int 1 / 4\<rceil> = 1" by (simp add: ceiling_eq_iff)
  have c4: "\<lceil>rat_of_int 4 / 4\<rceil> = 1" by simp
  from t c5 c1 have p1:
    "length (buildDdsFile (compressBC1 ?data 5 1) 5 1 DXT1) = 128 + 2 * 1 * 8"
    by simp
  from t c5 c1 have
    "getUint32 (buildDdsFile (compressBC1 ?data 5 1) 5 1 DXT1) 20 =
       Inr (int (length (compressBC1 ?data 5 1)))"
    by simp
  with p1 have p2: "getUint32 (buildDdsFile (compressBC1 ?data 5 1) 5 1 DXT1) 20 = Inr 16"
    by (simp add: length_buildDdsFile)
  from t n r have
    "length (enc_dds r) =
          128 + nat (\<lceil>rat_of_int (enc_width r) / 4\<rceil> * \<lceil>rat_of_int (enc_height r) / 4\<rceil>
                     * (if enc_format r = DXT1 then 8 else 16)) \<and>
     getUint32 (enc_dds r) 20 = Inr (int (length (enc_dds r)) - 128)"
    by blast
  with rw rh rf c4 have p3: "length (enc_dds r) = 128 + 1 * 1 * 16 \<and> getUint32 (enc_dds r) 20 = Inr 16"
    by simp
  from p1 p2 n r p3 show ?thesis by auto
qed

section \<open>Verification of the mesh extractor\<close>

subsection \<open>Vertex deduplication\<close>

lemma firstSeen_snoc:
  "rev (remdups (rev (ks @ [k]))) =
     (if k \<in> set ks then rev (remdups (rev ks)) else rev (remdups (rev ks)) @ [k])"
  by simp

lemma remapInv_lookup:
  assumes "remapInv vr used ks"
  shows "map_of vr k = None \<longleftrightarrow> k \<notin> set ks"
proof -
  have "map_of vr k = None \<longleftrightarrow> k \<notin> fst ` set vr" by (simp add: map_of_eq_None_iff)
  also have "fst ` set vr = set (map fst vr)" by simp
  also have "\<dots> = set ks" using assms by (simp add: remapInv_def)
  finally show ?thesis .
qed

lemma remapInv_lookup_Some:
  assumes inv: "remapInv vr used ks" and look: "map_of vr k = Some j"
  shows "j < length vr \<and> map fst vr ! j = k"
proof -
  from look have "(k, j) \<in> set vr" by (rule map_of_SomeD)
  then obtain i where i: "i < length vr" "vr ! i = (k, j)" by (auto simp: in_set_conv_nth)
  from inv have snd: "map snd vr = [0..<length vr]" by (simp add: remapInv_def)
  have "map snd vr ! i = j" using i by simp
  with snd i(1) have "j = i" by simp
  moreover have "map fst vr ! i = k" using i by simp
  ultimately show ?thesis using i(1) by simp
qed

lemma remapStep_inv:
  assumes inv: "remapInv vr used ks"
  shows "case remapStep src i (vr, used) of
           (vr', used') \<Rightarrow> remapInv vr' used' (ks @ [readIndex src i])"
proof -
  define k where "k = readIndex src i"
  from inv have fs: "map fst vr = rev (remdups (rev ks))"
    and sn: "map snd vr = [0..<length vr]"
    and lu: "length used = length ks"
    and nth: "\<forall>i<length ks. used ! i < length vr \<and> map fst vr ! (used ! i) = ks ! i"
    unfolding remapInv_def by blast+
  show ?thesis
  proof (cases "map_of vr k")
    case None
    then have notin: "k \<notin> set ks" using remapInv_lookup [OF inv] by simp
    have step: "remapStep src i (vr, used) = (vr @ [(k, length vr)], used @ [length vr])"
      using None by (simp add: remapStep_def k_def [symmetric] Let_def map_add_def)
    have "remapInv (vr @ [(k, length vr)]) (used @ [length vr]) (ks @ [k])"
      unfolding remapInv_def
    proof (intro conjI allI impI)
      show "map fst (vr @ [(k, length vr)]) = rev (remdups (rev (ks @ [k])))"
        using fs notin by simp
      show "map snd (vr @ [(k, length vr)]) = [0..<length (vr @ [(k, length vr)])]"
        using sn by simp
      show "length (used @ [length vr]) = length (ks @ [k])" using lu by simp
    next
      fix j assume j: "j < length (ks @ [k])"
      show "(used @ [length vr]) ! j < length (vr @ [(k, length vr)])"
        using j nth lu by (cases "j < length ks") (auto simp: nth_append less_Suc_eq)
      show "map fst (vr @ [(k, length vr)]) ! ((used @ [length vr]) ! j) = (ks @ [k]) ! j"
      proof (cases "j < length ks")
        case True
        with nth have "used ! j < length vr" "map fst vr ! (used ! j) = ks ! j" by auto
        with True lu show ?thesis by (simp add: nth_append)
      next
        case False
        with j have "j = length ks" by simp
        with lu show ?thesis by (simp add: nth_append)
      qed
    qed
    with step show ?thesis by (simp add: k_def)
  next
    case (Some n)
    then have isin: "k \<in> set ks" using remapInv_lookup [OF inv, of k] by simp
    from remapInv_lookup_Some [OF inv Some] have n: "n < length vr" "map fst vr ! n = k"
      by simp_all
    have step: "remapStep src i (vr, used) = (vr, used @ [n])"
      using Some by (simp add: remapStep_def k_def [symmetric] Let_def)
    have "remapInv vr (used @ [n]) (ks @ [k])"
      unfolding remapInv_def
    proof (intro conjI allI impI)
      show "map fst vr = rev (remdups (rev (ks @ [k])))" using fs isin by simp
      show "map snd vr = [0..<length vr]" by (rule sn)
      show "length (used @ [n]) = length (ks @ [k])" using lu by simp
    next
      fix j assume j: "j < length (ks @ [k])"
      show "(used @ [n]) ! j < length vr"
        using j nth lu n by (cases "j < length ks") (auto simp: nth_append less_Suc_eq)
      show "map fst vr ! ((used @ [n]) ! j) = (ks @ [k]) ! j"
      proof (cases "j < length ks")
        case True
        with nth have "map fst vr ! (used ! j) = ks ! j" by blast
        with True lu show ?thesis by (simp only: nth_append) simp
      next
        case False
        with j have "j = length ks" by simp
        with lu n(2) show ?thesis by (simp only: nth_append) simp
      qed
    qed
    with step show ?thesis by (simp add: k_def)
  qed
qed

lemma fold_remapStep_inv:
  assumes "remapInv vr used ks"
  shows "case fold (remapStep src) is (vr, used) of
           (vr', used') \<Rightarrow> remapInv vr' used' (ks @ map (readIndex src) is)"
  using assms
proof (induction "is" arbitrary: vr used ks)
  case Nil
  then show ?case by simp
next
  case (Cons i "is")
  obtain vr1 used1 where s: "remapStep src i (vr, used) = (vr1, used1)" by fastforce
  with remapStep_inv [OF Cons.prems, of src i]
  have "remapInv vr1 used1 (ks @ [readIndex src i])" by simp
  from Cons.IH [OF this] s show ?case by simp
qed

lemma collectVertices_inv:
  "case collectVertices src start count of
     (vr, used) \<Rightarrow> remapInv vr used (map (readIndex src) [start..<start + count])"
proof -
  have "remapInv [] [] ([] :: idx list)" by (simp add: remapInv_def)
  from fold_remapStep_inv [OF this, of src "[start..<start + count]"]
  show ?thesis by (simp add: collectVertices_def)
qed

lemma fold_fillVertex_positions:
  "fst (fold (fillVertex geo) es (ps, ns, us)) =
     fold (\<lambda>(k, j) ps. ps[j * 3 := getX (geo_position geo) k,
                          j * 3 + 1 := getY (geo_position geo) k,
                          j * 3 + 2 := getZ (geo_position geo) k]) es ps"
proof (induction es arbitrary: ps ns us)
  case Nil
  show ?case by simp
next
  case (Cons e es)
  obtain k j where e: "e = (k, j)" by (cases e)
  obtain ps1 ns1 us1 where s: "fillVertex geo (k, j) (ps, ns, us) = (ps1, ns1, us1)"
    by (metis prod_cases3)
  then have "ps1 = ps[j * 3 := getX (geo_position geo) k,
                      j * 3 + 1 := getY (geo_position geo) k,
                      j * 3 + 2 := getZ (geo_position geo) k]"
    by (simp add: fillVertex_def Let_def)
  with Cons.IH [of ps1 ns1 us1] s e show ?case by simp
qed

lemma length_concat_vertexOf: "length (concat (map (vertexOf a) ks)) = 3 * length ks"
  by (induction ks) (simp_all add: vertexOf_def)

lemma write_vertex_at_end:
  assumes "length A = j * 3"
  shows "(A @ replicate (3 * Suc r) z)[j * 3 := x, j * 3 + 1 := y, j * 3 + 2 := w] =
         (A @ [x, y, w]) @ replicate (3 * r) z"
proof -
  have "replicate (3 * Suc r) z = z # z # z # replicate (3 * r) z"
    by (simp add: numeral_3_eq_3)
  then show ?thesis using assms by (simp add: list_update_append)
qed

lemma fold_positions_prefix:
  assumes sn: "map snd es = [0..<length es]" and m: "m \<le> length es"
  shows "fold (\<lambda>(k, j) ps. ps[j * 3 := getX a k, j * 3 + 1 := getY a k, j * 3 + 2 := getZ a k])
           (take m es) (replicate (3 * length es) z) =
         concat (map (vertexOf a) (map fst (take m es))) @ replicate (3 * (length es - m)) z"
  using m
proof (induction m)
  case 0
  show ?case by simp
next
  case (Suc m)
  then have lt: "m < length es" by simp
  obtain k j where e: "es ! m = (k, j)" by (cases "es ! m")
  have "map snd es ! m = j" using lt e by simp
  with sn lt have j: "j = m" by simp
  have tk: "take (Suc m) es = take m es @ [(k, m)]"
    using lt e j by (simp add: take_Suc_conv_app_nth)
  let ?A = "concat (map (vertexOf a) (map fst (take m es)))"
  have lA: "length ?A = m * 3"
    using lt length_concat_vertexOf [of a "map fst (take m es)"] by simp
  obtain r where r: "length es - m = Suc r" using lt by (cases "length es - m") auto
  then have r': "length es - Suc m = r" by simp
  have "fold (\<lambda>(k, j) ps. ps[j * 3 := getX a k, j * 3 + 1 := getY a k, j * 3 + 2 := getZ a k])
           (take (Suc m) es) (replicate (3 * length es) z) =
        (?A @ replicate (3 * Suc r) z)[m * 3 := getX a k, m * 3 + 1 := getY a k, m * 3 + 2 := getZ a k]"
    using Suc.IH lt r by (simp add: tk)
  also have "\<dots> = (?A @ [getX a k, getY a k, getZ a k]) @ replicate (3 * r) z"
    using lA by (rule write_vertex_at_end)
  also have "?A @ [getX a k, getY a k, getZ a k] =
             concat (map (vertexOf a) (map fst (take (Suc m) es)))"
    by (simp add: tk vertexOf_def)
  finally show ?case by (simp only: r')
qed

lemma fold_positions_all:
  assumes "map snd es = [0..<length es]"
  shows "fold (\<lambda>(k, j) ps. ps[j * 3 := getX a k, j * 3 + 1 := getY a k, j * 3 + 2 := getZ a k])
           es (replicate (length es * 3) z) =
         concat (map (vertexOf a) (map fst es))"
  using fold_positions_prefix [OF assms, of "length es" a z] by (simp add: mult.commute)

lemma extractSubMesh_Some:
  assumes "geo_index geo = Some src" "extractSubMesh geo start count mi mn = Some m"
  obtains vr where "collectVertices src start count = (vr, indices m)"
    and "vr \<noteq> []"
    and "positions m = fst (fold (fillVertex geo) vr
           (replicate (length vr * 3) 0, replicate (length vr * 3) 0, replicate (length vr * 2) 0))"
    and "materialIndex m = mi" and "materialName m = mn"
proof -
  obtain vr used where c: "collectVertices src start count = (vr, used)" by fastforce
  from assms c have ne: "vr \<noteq> []"
    by (auto simp: extractSubMesh_def Let_def split: if_splits)
  from assms c ne have "indices m = used \<and> materialIndex m = mi \<and> materialName m = mn \<and>
     positions m = fst (fold (fillVertex geo) vr
           (replicate (length vr * 3) 0, replicate (length vr * 3) 0, replicate (length vr * 2) 0))"
    by (auto simp: extractSubMesh_def Let_def split_beta split: if_splits)
  with c ne that show ?thesis by blast
qed

lemma example_mesh:
  "extractSubMesh exampleGeo 1 4 0 ''m'' =
     Some \<lparr>positions = [3, 30, 300, 5, 50, 500, 7, 70, 700],
           normals = [0, 0, 0, 0, 0, 0, 0, 0, 0], uvs = [0, 0, 0, 0, 0, 0],
           colors = None, indices = [0, 1, 2, 0], materialIndex = 0, materialName = ''m''\<rparr>"
  by code_simp

lemma example_ks:
  "map (readIndex [5, 3, 5, 7, 3, 9]) [1..<1 + 4] = [Some 3, Some 5, Some 7, Some 3]"
  by code_simp

text \<open>
  Claim C1. For every sub-mesh that \<open>extractSubMesh\<close> returns for an index range, let
  \<open>ks\<close> be the indices read from the range, in order, and \<open>firstSeen\<close> the distinct
  values of \<open>ks\<close> in the order of their first appearance. Each index read is given the
  position of its value in \<open>firstSeen\<close> as its local index, and the vertices are written
  in that order. Hence the number of output vertices is the number of distinct values of
  \<open>ks\<close>, every output index is below the vertex count, and every output vertex is
  referenced by some output index.
\<close>

theorem vertex_dedup:
  assumes "geo_index geo = Some srcIndices"
    and "extractSubMesh geo startIndex count matIndex matName = Some mesh"
  shows "let ks = map (readIndex srcIndices) [startIndex..<startIndex + count];
             firstSeen = rev (remdups (rev ks));
             vertexCount = card (set ks)
         in length firstSeen = vertexCount
            \<and> positions mesh = concat (map (vertexOf (geo_position geo)) firstSeen)
            \<and> length (positions mesh) = 3 * vertexCount
            \<and> length (indices mesh) = count
            \<and> (\<forall>i<count. indices mesh ! i < vertexCount
                          \<and> firstSeen ! (indices mesh ! i) = ks ! i)
            \<and> (\<forall>v<vertexCount. v \<in> set (indices mesh))"
proof -
  define ks where "ks = map (readIndex srcIndices) [startIndex..<startIndex + count]"
  define fs where "fs = rev (remdups (rev ks))"
  from assms obtain vr where c: "collectVertices srcIndices startIndex count = (vr, indices mesh)"
    and p: "positions mesh = fst (fold (fillVertex geo) vr
           (replicate (length vr * 3) 0, replicate (length vr * 3) 0, replicate (length vr * 2) 0))"
    by (rule extractSubMesh_Some)
  from collectVertices_inv [of srcIndices startIndex count] c
  have inv: "remapInv vr (indices mesh) ks" by (simp add: ks_def)
  then have f: "map fst vr = fs" and sn: "map snd vr = [0..<length vr]"
    and lu: "length (indices mesh) = length ks"
    and nth: "\<forall>i<length ks. indices mesh ! i < length vr \<and> map fst vr ! (indices mesh ! i) = ks ! i"
    unfolding remapInv_def fs_def by blast+
  have lk: "length ks = count" by (simp add: ks_def)
  have lfs: "length fs = card (set ks)"
    unfolding fs_def by (simp add: length_remdups_card_conv)
  have lvr: "length vr = card (set ks)" using f lfs by (metis length_map)
  have dfs: "distinct fs" unfolding fs_def by simp
  have sfs: "set fs = set ks" unfolding fs_def by simp
  have pos: "positions mesh = concat (map (vertexOf (geo_position geo)) fs)"
    unfolding p fold_fillVertex_positions using fold_positions_all [OF sn] f by simp
  have lpos: "length (positions mesh) = 3 * card (set ks)"
    unfolding pos by (simp add: length_concat_vertexOf lfs)
  have idx: "\<forall>i<count. indices mesh ! i < card (set ks) \<and> fs ! (indices mesh ! i) = ks ! i"
    using nth lk lvr f by simp
  have ref: "\<forall>v<card (set ks). v \<in> set (indices mesh)"
  proof (intro allI impI)
    fix v assume v: "v < card (set ks)"
    then have "fs ! v \<in> set ks" using lfs sfs nth_mem [of v fs] by simp
    then obtain i where i: "i < length ks" "ks ! i = fs ! v" by (auto simp: in_set_conv_nth)
    with idx lk have u: "indices mesh ! i < card (set ks)" "fs ! (indices mesh ! i) = fs ! v"
      by simp_all
    with dfs v lfs have "indices mesh ! i = v" by (simp add: nth_eq_iff_index_eq)
    moreover have "indices mesh ! i \<in> set (indices mesh)" using i(1) lu by simp
    ultimately show "v \<in> set (indices mesh)" by simp
  qed
  from lfs pos lpos lu lk idx ref show ?thesis
    unfolding Let_def ks_def [symmetric] fs_def [symmetric] by simp
qed

theorem vertex_dedup_witness:
  "geo_index exampleGeo = Some [5, 3, 5, 7, 3, 9] \<and>
   extractSubMesh exampleGeo 1 4 0 ''m'' = Some exampleMesh \<and>
   card (set [Some 3, Some 5, Some 7, Some (3::nat)]) = 3 \<and>
   positions exampleMesh =
     concat (map (vertexOf (geo_position exampleGeo)) [Some 3, Some 5, Some 7]) \<and>
   length (positions exampleMesh) = 3 * 3 \<and>
   length (indices exampleMesh) = 4 \<and>
   indices exampleMesh ! 3 < 3 \<and>
   [Some 3, Some 5, Some 7] ! (indices exampleMesh ! 3) = Some (3::nat) \<and>
   2 \<in> set (indices exampleMesh)"
proof -
  have g: "geo_index exampleGeo = Some [5, 3, 5, 7, 3, 9]" by (simp add: exampleGeo_def)
  have m: "extractSubMesh exampleGeo 1 4 0 ''m'' = Some exampleMesh"
    unfolding exampleMesh_def by (rule example_mesh)
  have c: "card (set [Some 3, Some 5, Some 7, Some (3::nat)]) = 3" by code_simp
  have f: "rev (remdups (rev [Some 3, Some 5, Some 7, Some (3::nat)])) = [Some 3, Some 5, Some 7]"
    by simp
  note t = vertex_dedup [OF g m, unfolded Let_def example_ks f c]
  from t have "\<forall>i<4. indices exampleMesh ! i < 3 \<and>
                 [Some 3, Some 5, Some 7] ! (indices exampleMesh ! i) =
                 [Some 3, Some 5, Some 7, Some (3::nat)] ! i"
    by blast
  then have i3: "indices exampleMesh ! 3 < 3 \<and>
                 [Some 3, Some 5, Some 7] ! (indices exampleMesh ! 3) = Some (3::nat)"
    by fastforce
  from t have "\<forall>v<3. v \<in> set (indices exampleMesh)" by blast
  then have r2: "2 \<in> set (indices exampleMesh)" by simp
  from g m c t i3 r2 show ?thesis by blast
qed

subsection \<open>Material names\<close>

lemma upt_10: "[0..<10] = [0, 1, 2, 3, 4, 5, 6, 7, 8, 9]"
  by code_simp

lemma digitVal_digitChar: "d < 10 \<Longrightarrow> digitVal (digitChar d) = d"
proof -
  assume "d < 10"
  then have "d \<in> set [0..<10]" by simp
  then have "d \<in> {0, 1, 2, 3, 4, 5, 6, 7, 8, 9}" unfolding upt_10 by simp
  then show ?thesis
    unfolding digitVal_def digitChar_def upt_10 by auto
qed

lemma natOfDigits_snoc: "natOfDigits (s @ [c]) = 10 * natOfDigits s + digitVal c"
  by (simp add: natOfDigits_def)

lemma natOfDigits_decimal: "natOfDigits (decimal n) = n"
proof (induction n rule: decimal.induct)
  case (1 n)
  show ?case
  proof (cases "n < 10")
    case True
    then show ?thesis
      by (subst decimal.simps) (simp add: natOfDigits_def digitVal_digitChar)
  next
    case False
    with "1.IH" have "natOfDigits (decimal (n div 10)) = n div 10" by simp
    with False show ?thesis
      by (subst decimal.simps) (simp add: natOfDigits_snoc digitVal_digitChar)
  qed
qed

lemma decimal_inj: "decimal a = decimal b \<Longrightarrow> a = b"
  by (metis natOfDigits_decimal)

lemma syntheticName_inj: "syntheticName a = syntheticName b \<Longrightarrow> a = b"
  by (simp add: syntheticName_def decimal_inj)

lemma syntheticName_not_default: "syntheticName k \<noteq> ''default''"
  by (simp add: syntheticName_def)

lemma extractSubMesh_material:
  assumes "extractSubMesh geo s c mi mn = Some m"
  shows "materialIndex m = mi \<and> materialName m = mn"
  using assms
  by (auto simp: extractSubMesh_def Let_def split_beta split: option.splits if_splits)

lemma namesInv_init:
  "namesInv \<lparr>st_materialMap = Map.empty, st_materialNames = [], st_meshes = []\<rparr>"
  by (simp add: namesInv_def)

lemma fold_nodeStep_groupList:
  "fold (nodeStep cvn) drawables st =
     fold (\<lambda>(geo, materials, grp). groupStep geo materials grp) (groupList cvn drawables) st"
proof (induction drawables arbitrary: st)
  case Nil
  show ?case by (simp add: groupList_def)
next
  case (Cons child drawables)
  have n: "nodeStep cvn child st =
     fold (\<lambda>(geo, materials, grp). groupStep geo materials grp)
       (map (\<lambda>grp. (preparedGeometry cvn child, materialsOf (node_material child), grp))
            (groupsOf (preparedGeometry cvn child))) st"
    by (simp add: nodeStep_def preparedGeometry_def Let_def fold_map comp_def)
  have g: "groupList cvn (child # drawables) =
     map (\<lambda>grp. (preparedGeometry cvn child, materialsOf (node_material child), grp))
         (groupsOf (preparedGeometry cvn child)) @ groupList cvn drawables"
    by (simp add: groupList_def)
  show ?case unfolding g by (simp add: n [symmetric] Cons.IH)
qed

lemma groupStep_unnamed_meshes:
  assumes inv: "namesInv st"
    and un: "unnamed (pickMaterial materials (case g_materialIndex grp of Some i \<Rightarrow> i | None \<Rightarrow> 0))"
  shows "namesInv (groupStep geo materials grp st) \<and>
         length (st_materialNames (groupStep geo materials grp st)) =
           Suc (length (st_materialNames st)) \<and>
         st_meshes (groupStep geo materials grp st) =
           st_meshes st @
           (case groupMesh (length (st_materialNames st), geo, materials, grp) of
              Some m \<Rightarrow> [m] | None \<Rightarrow> [])"
proof -
  define n where "n = length (st_materialNames st)"
  define i where "i = (case g_materialIndex grp of Some i \<Rightarrow> i | None \<Rightarrow> 0)"
  from inv have names: "st_materialNames st = map syntheticName [0..<n]"
    and mp: "\<forall>s. st_materialMap st s = None \<longleftrightarrow> s \<notin> set (st_materialNames st)"
    and ms: "\<forall>m \<in> set (st_meshes st). materialIndex m < n \<and>
                                materialName m = syntheticName (materialIndex m)"
    and so: "sorted_wrt (<) (map materialIndex (st_meshes st))"
    unfolding namesInv_def n_def by blast+
  have "unnamed (pickMaterial materials i)" using un by (simp add: i_def)
  then have nm: "(case pickMaterial materials i of
                       Some m \<Rightarrow> if mat_name m \<noteq> [] then mat_name m
                                 else ''Material_'' @ decimal n
                     | None \<Rightarrow> ''Material_'' @ decimal n) =
                 syntheticName n"
    by (auto simp: unnamed_def syntheticName_def split: option.splits)
  have fresh: "syntheticName n \<notin> set (st_materialNames st)"
  proof
    assume "syntheticName n \<in> set (st_materialNames st)"
    then obtain k where "k < n" "syntheticName n = syntheticName k"
      unfolding names by auto
    then show False using syntheticName_inj by blast
  qed
  then have none: "st_materialMap st (syntheticName n) = None" using mp by simp
  define st1 where "st1 = st\<lparr>st_materialMap := (st_materialMap st)(syntheticName n \<mapsto> n),
                         st_materialNames := st_materialNames st @ [syntheticName n]\<rparr>"
  have step: "groupStep geo materials grp st =
      (case extractSubMesh geo (g_start grp) (g_count grp) n (syntheticName n) of
           Some subMesh \<Rightarrow> st1\<lparr>st_meshes := st_meshes st1 @ [subMesh]\<rparr>
         | None \<Rightarrow> st1)"
    unfolding groupStep_def Let_def i_def [symmetric] nm n_def [symmetric]
    using none by (simp add: st1_def split: option.split)
  have m1: "st_meshes st1 = st_meshes st" by (simp add: st1_def)
  have mesh: "st_meshes (groupStep geo materials grp st) =
           st_meshes st @
           (case groupMesh (n, geo, materials, grp) of Some m \<Rightarrow> [m] | None \<Rightarrow> [])"
    unfolding step groupMesh_def by (simp add: m1 split: option.split)
  have un': "\<forall>m \<in> set [pickMaterial materials i]. unnamed m"
    using \<open>unnamed (pickMaterial materials i)\<close> by simp
  have rest: "namesInv (groupStep geo materials grp st) \<and>
         length (st_materialNames (groupStep geo materials grp st)) = Suc n"
  proof (cases "extractSubMesh geo (g_start grp) (g_count grp) n (syntheticName n)")
    case None
    have "namesInv st1"
      unfolding namesInv_def using names mp ms so
      by (auto simp: st1_def less_Suc_eq)
    with step None show ?thesis by (simp add: st1_def n_def)
  next
    case (Some sub)
    from extractSubMesh_material [OF Some]
    have sm: "materialIndex sub = n" "materialName sub = syntheticName n" by simp_all
    have "namesInv (st1\<lparr>st_meshes := st_meshes st1 @ [sub]\<rparr>)"
      unfolding namesInv_def using names mp ms so sm
      by (auto simp: st1_def less_Suc_eq sorted_wrt_append)
    with step Some show ?thesis by (simp add: st1_def n_def)
  qed
  with mesh show ?thesis by (simp add: n_def)
qed


lemma fold_groupStep_exact:
  assumes "namesInv st"
    and "\<forall>g \<in> set gs. unnamed (pickedMaterial g)"
  shows "namesInv (fold (\<lambda>(geo, materials, grp). groupStep geo materials grp) gs st) \<and>
         st_materialNames (fold (\<lambda>(geo, materials, grp). groupStep geo materials grp) gs st) =
           map syntheticName [0..<length (st_materialNames st) + length gs] \<and>
         st_meshes (fold (\<lambda>(geo, materials, grp). groupStep geo materials grp) gs st) =
           st_meshes st @
           List.map_filter groupMesh
             (zip [length (st_materialNames st)..<length (st_materialNames st) + length gs] gs)"
  using assms
proof (induction gs arbitrary: st)
  case Nil
  then show ?case by (simp add: namesInv_def map_filter_simps)
next
  case (Cons g gs)
  obtain geo materials grp where g: "g = (geo, materials, grp)" by (cases g)
  define n where "n = length (st_materialNames st)"
  define st1 where "st1 = groupStep geo materials grp st"
  from Cons.prems(2)
  have un: "unnamed (pickMaterial materials (case g_materialIndex grp of Some i \<Rightarrow> i | None \<Rightarrow> 0))"
    by (simp add: g pickedMaterial_def)
  from groupStep_unnamed_meshes [OF Cons.prems(1) un, of geo]
  have inv1: "namesInv st1" and len1: "length (st_materialNames st1) = Suc n"
    and mesh1: "st_meshes st1 =
                  st_meshes st @ (case groupMesh (n, g) of Some m \<Rightarrow> [m] | None \<Rightarrow> [])"
    by (simp_all add: st1_def n_def g)
  from Cons.prems(2) have rest: "\<forall>g \<in> set gs. unnamed (pickedMaterial g)" by simp
  note ih = Cons.IH [OF inv1 rest, unfolded len1]
  have f: "fold (\<lambda>(geo, materials, grp). groupStep geo materials grp) (g # gs) st =
           fold (\<lambda>(geo, materials, grp). groupStep geo materials grp) gs st1"
    by (simp add: g st1_def)
  have z: "zip [n..<n + length (g # gs)] (g # gs) = (n, g) # zip [Suc n..<Suc n + length gs] gs"
    by (simp add: upt_conv_Cons del: upt_Suc)
  have mf: "List.map_filter groupMesh ((n, g) # zip [Suc n..<Suc n + length gs] gs) =
            (case groupMesh (n, g) of Some m \<Rightarrow> [m] | None \<Rightarrow> []) @
            List.map_filter groupMesh (zip [Suc n..<Suc n + length gs] gs)"
    by (simp add: map_filter_simps split: option.split)
  show ?case
    unfolding f n_def [symmetric] z mf
    using ih by (simp add: mesh1)
qed

lemma ownUnnamedMaterials_unnamed:
  "ownUnnamedMaterials (map pickedMaterial gs) \<Longrightarrow> \<forall>g \<in> set gs. unnamed (pickedMaterial g)"
  by (simp add: ownUnnamedMaterials_def list_all_iff)

lemma groupStep_shape:
  obtains name sub where
    "groupStep geo materials grp st =
       (let st1 = (if st_materialMap st name = None
                   then st\<lparr>st_materialMap := (st_materialMap st)(name \<mapsto> length (st_materialNames st)),
                           st_materialNames := st_materialNames st @ [name]\<rparr>
                   else st)
        in case sub of Some m \<Rightarrow> st1\<lparr>st_meshes := st_meshes st1 @ [m]\<rparr> | None \<Rightarrow> st1)"
  unfolding groupStep_def Let_def by blast

lemma groupStep_registered:
  assumes "registeredInv st"
  shows "registeredInv (groupStep geo materials grp st) \<and>
         st_materialNames (groupStep geo materials grp st) \<noteq> []"
proof -
  obtain name sub where s: "groupStep geo materials grp st =
       (let st1 = (if st_materialMap st name = None
                   then st\<lparr>st_materialMap := (st_materialMap st)(name \<mapsto> length (st_materialNames st)),
                           st_materialNames := st_materialNames st @ [name]\<rparr>
                   else st)
        in case sub of Some m \<Rightarrow> st1\<lparr>st_meshes := st_meshes st1 @ [m]\<rparr> | None \<Rightarrow> st1)"
    by (rule groupStep_shape)
  from assms have mp: "\<forall>s. st_materialMap st s = None \<longleftrightarrow> s \<notin> set (st_materialNames st)"
    and me: "st_meshes st \<noteq> [] \<longrightarrow> st_materialNames st \<noteq> []"
    unfolding registeredInv_def by blast+
  show ?thesis
  proof (cases "st_materialMap st name = None")
    case True
    with mp me show ?thesis
      unfolding s registeredInv_def Let_def by (cases sub) auto
  next
    case False
    with mp have "name \<in> set (st_materialNames st)" by simp
    then have "st_materialNames st \<noteq> []" by auto
    with False mp show ?thesis
      unfolding s registeredInv_def Let_def by (cases sub) auto
  qed
qed

lemma fold_groupStep_registered:
  assumes "registeredInv st"
  shows "registeredInv (fold (groupStep geo materials) grps st) \<and>
         (grps \<noteq> [] \<longrightarrow> st_materialNames (fold (groupStep geo materials) grps st) \<noteq> [])"
  using assms
proof (induction grps arbitrary: st)
  case Nil
  then show ?case by simp
next
  case (Cons g grps)
  from groupStep_registered [OF Cons.prems, of geo materials g]
  have a: "registeredInv (groupStep geo materials g st)"
    and b: "st_materialNames (groupStep geo materials g st) \<noteq> []" by simp_all
  from Cons.IH [OF a] have c: "registeredInv (fold (groupStep geo materials) grps (groupStep geo materials g st))"
    and d: "grps \<noteq> [] \<longrightarrow>
            st_materialNames (fold (groupStep geo materials) grps (groupStep geo materials g st)) \<noteq> []"
    by simp_all
  show ?case using b c d by (cases grps) simp_all
qed

lemma fold_nodeStep_registered:
  assumes "registeredInv st"
  shows "registeredInv (fold (nodeStep cvn) drawables st)"
  using assms
proof (induction drawables arbitrary: st)
  case Nil
  then show ?case by simp
next
  case (Cons node drawables)
  have "registeredInv (nodeStep cvn node st)"
    unfolding nodeStep_def Let_def using fold_groupStep_registered [OF Cons.prems] by blast
  from Cons.IH [OF this] show ?case by simp
qed

lemma registeredInv_init:
  "registeredInv \<lparr>st_materialMap = Map.empty, st_materialNames = [], st_meshes = []\<rparr>"
  by (simp add: registeredInv_def)

lemma extractModelData_Inr:
  assumes "extractModelData cvn drawables filename = Inr model"
  shows "st_meshes (fold (nodeStep cvn) drawables
            \<lparr>st_materialMap = Map.empty, st_materialNames = [], st_meshes = []\<rparr>) \<noteq> []"
    and "meshes model = st_meshes (fold (nodeStep cvn) drawables
            \<lparr>st_materialMap = Map.empty, st_materialNames = [], st_meshes = []\<rparr>)"
    and "materialNames model = st_materialNames (fold (nodeStep cvn) drawables
            \<lparr>st_materialMap = Map.empty, st_materialNames = [], st_meshes = []\<rparr>)"
    and "materialNames model \<noteq> []"
    and "drawables \<noteq> []"
proof -
  let ?st = "fold (nodeStep cvn) drawables
            \<lparr>st_materialMap = Map.empty, st_materialNames = [], st_meshes = []\<rparr>"
  show ne: "st_meshes ?st \<noteq> []"
    using assms by (auto simp: extractModelData_def Let_def split: if_splits)
  have "registeredInv ?st" using registeredInv_init by (rule fold_nodeStep_registered)
  with ne have nn: "st_materialNames ?st \<noteq> []" unfolding registeredInv_def by blast
  show "meshes model = st_meshes ?st"
    using assms by (auto simp: extractModelData_def Let_def split: if_splits)
  show mn: "materialNames model = st_materialNames ?st"
    using assms nn by (auto simp: extractModelData_def Let_def split: if_splits)
  show "materialNames model \<noteq> []" using mn nn by simp
  show "drawables \<noteq> []" using ne by auto
qed

lemma example_model:
  "extractModelData (\<lambda>_. exampleAttr) [exampleNode] ''m.obj'' = Inr exampleModel"
  unfolding exampleModel_def by code_simp

lemma two_mesh_model:
  "extractModelData (\<lambda>_. exampleAttr) [unnamedNode 1, unnamedNode 2] ''m.obj'' = Inr twoMeshModel"
  unfolding twoMeshModel_def extractedMesh_def by code_simp

text \<open>
  A material with a name is registered once, however many groups use it: two nodes that
  share the material \<open>steel\<close> give one name, and both meshes carry its index.
\<close>

lemma shared_named_material:
  "extractModelData (\<lambda>_. exampleAttr) [namedNode 7 ''steel'', namedNode 7 ''steel''] ''m.obj'' =
     Inr \<lparr>model_name = ''m'',
          meshes = [extractedMesh 0 ''steel'', extractedMesh 0 ''steel''],
          materialNames = [''steel'']\<rparr>"
  unfolding extractedMesh_def by code_simp

text \<open>
  Claim C9. The claim as stated fails, in both halves. Two nodes that share one and the
  same unnamed material do not give that material one name in first-seen order: it is
  registered twice, as \<open>Material_0\<close> and as \<open>Material_1\<close>, and the two meshes carry the
  indices 0 and 1. A scene with geometry and no material at all returns a model whose
  material names are \<open>Material_0\<close>, without \<open>default\<close>; and a scene without any drawable
  node returns no model at all.
\<close>

theorem default_material_counterexample:
  "map pickedMaterial (groupList (\<lambda>_. exampleAttr) [unnamedNode 7, unnamedNode 7]) =
     [Some \<lparr>mat_id = 7, mat_name = []\<rparr>, Some \<lparr>mat_id = 7, mat_name = []\<rparr>] \<and>
   extractModelData (\<lambda>_. exampleAttr) [unnamedNode 7, unnamedNode 7] ''m.obj'' = Inr twoMeshModel \<and>
   materialNames twoMeshModel = [''Material_0'', ''Material_1''] \<and>
   map materialIndex (meshes twoMeshModel) = [0, 1] \<and>
   extractModelData (\<lambda>_. exampleAttr) [exampleNode] ''m.obj'' = Inr exampleModel \<and>
   materialNames exampleModel = [''Material_0''] \<and>
   ''default'' \<notin> set (materialNames exampleModel) \<and>
   extractModelData (\<lambda>_. exampleAttr) [] ''m.obj'' = Inl NoGeometryFound"
proof -
  have a: "map pickedMaterial (groupList (\<lambda>_. exampleAttr) [unnamedNode 7, unnamedNode 7]) =
     [Some \<lparr>mat_id = 7, mat_name = []\<rparr>, Some \<lparr>mat_id = 7, mat_name = []\<rparr>]"
    by code_simp
  have b: "extractModelData (\<lambda>_. exampleAttr) [unnamedNode 7, unnamedNode 7] ''m.obj'' =
             Inr twoMeshModel"
    unfolding twoMeshModel_def extractedMesh_def by code_simp
  have c: "materialNames twoMeshModel = [''Material_0'', ''Material_1'']"
    "map materialIndex (meshes twoMeshModel) = [0, 1]"
    by (simp_all add: twoMeshModel_def extractedMesh_def)
  have d: "materialNames exampleModel = [''Material_0'']"
    "''default'' \<notin> set (materialNames exampleModel)"
    by (simp_all add: exampleModel_def)
  have e: "extractModelData (\<lambda>_. exampleAttr) [] ''m.obj'' = Inl NoGeometryFound"
    by (simp add: extractModelData_def)
  from a b c d e example_model show ?thesis by simp
qed

text \<open>
  Claim C9. (as amended) When no group's material has a name and no material is used by
  two groups (a missing material counting as one material), the materials get the names
  \<open>Material_0, Material_1, ...\<close> in the order in which they are first seen: the returned
  model lists exactly these names, and the mesh of the \<open>k\<close>-th group visited, when that
  group is not empty, carries the index \<open>k\<close> and the name \<open>Material_<k>\<close>. The name
  \<open>default\<close> is registered only when no group was visited, and then the extraction fails
  with \<open>NoGeometryFound\<close>: a scene without drawable nodes returns no model, and the
  material names of a returned model are exactly the names registered by its groups, so
  they are never empty and never the fallback. What is registered for an unnamed material
  that several groups share is not part of this statement.
\<close>

theorem material_names:
  fixes computeVertexNormals :: "'f::{zero,one} geometry \<Rightarrow> 'f attribute"
  shows
  "extractModelData computeVertexNormals [] filename = Inl NoGeometryFound \<and>
   (extractModelData computeVertexNormals drawables filename = Inr model \<longrightarrow>
      drawables \<noteq> [] \<and>
      materialNames model \<noteq> [] \<and>
      materialNames model =
        st_materialNames
          (fold (nodeStep computeVertexNormals) drawables
             \<lparr>st_materialMap = Map.empty, st_materialNames = [], st_meshes = []\<rparr>)) \<and>
   (ownUnnamedMaterials (map pickedMaterial (groupList computeVertexNormals drawables)) \<and>
    extractModelData computeVertexNormals drawables filename = Inr model \<longrightarrow>
      materialNames model =
        map syntheticName [0..<length (groupList computeVertexNormals drawables)] \<and>
      meshes model =
        List.map_filter groupMesh
          (zip [0..<length (groupList computeVertexNormals drawables)]
               (groupList computeVertexNormals drawables)) \<and>
      ''default'' \<notin> set (materialNames model))"
proof (intro conjI impI)
  show "extractModelData computeVertexNormals [] filename = Inl NoGeometryFound"
    by (simp add: extractModelData_def)
next
  assume r: "extractModelData computeVertexNormals drawables filename = Inr model"
  from extractModelData_Inr [OF r]
  show "drawables \<noteq> []" "materialNames model \<noteq> []"
    "materialNames model =
        st_materialNames
          (fold (nodeStep computeVertexNormals) drawables
             \<lparr>st_materialMap = Map.empty, st_materialNames = [], st_meshes = []\<rparr>)"
    by simp_all
next
  assume h: "ownUnnamedMaterials (map pickedMaterial (groupList computeVertexNormals drawables)) \<and>
    extractModelData computeVertexNormals drawables filename = Inr model"
  define init :: "'f extractState"
    where "init = \<lparr>st_materialMap = Map.empty, st_materialNames = [], st_meshes = []\<rparr>"
  define gs where "gs = groupList computeVertexNormals drawables"
  from h have r: "extractModelData computeVertexNormals drawables filename = Inr model" by simp
  from h have un: "\<forall>g \<in> set gs. unnamed (pickedMaterial g)"
    unfolding gs_def by (intro ownUnnamedMaterials_unnamed) simp
  have i0: "namesInv init" unfolding init_def by (rule namesInv_init)
  have l0: "length (st_materialNames init) = 0" "st_meshes init = []" by (simp_all add: init_def)
  from fold_groupStep_exact [OF i0 un, unfolded l0]
  have ex: "st_materialNames (fold (nodeStep computeVertexNormals) drawables init) =
              map syntheticName [0..<length gs]"
    "st_meshes (fold (nodeStep computeVertexNormals) drawables init) =
              List.map_filter groupMesh (zip [0..<length gs] gs)"
    by (simp_all add: fold_nodeStep_groupList gs_def)
  from extractModelData_Inr [OF r]
  have m: "meshes model = st_meshes (fold (nodeStep computeVertexNormals) drawables init)"
    and n: "materialNames model = st_materialNames (fold (nodeStep computeVertexNormals) drawables init)"
    by (simp_all add: init_def)
  show "materialNames model = map syntheticName [0..<length (groupList computeVertexNormals drawables)]"
    using n ex by (simp add: gs_def)
  show "meshes model =
        List.map_filter groupMesh
          (zip [0..<length (groupList computeVertexNormals drawables)]
               (groupList computeVertexNormals drawables))"
    using m ex by (simp add: gs_def)
  show "''default'' \<notin> set (materialNames model)"
    unfolding n ex(1) by (auto simp: syntheticName_def)
qed

theorem material_names_witness:
  "ownUnnamedMaterials
     (map pickedMaterial (groupList (\<lambda>_. exampleAttr) [unnamedNode 1, unnamedNode 2])) \<and>
   extractModelData (\<lambda>_. exampleAttr) [unnamedNode 1, unnamedNode 2] ''m.obj'' = Inr twoMeshModel \<and>
   materialNames twoMeshModel = map syntheticName [0..<2] \<and>
   meshes twoMeshModel =
     List.map_filter groupMesh
       (zip [0..<2] (groupList (\<lambda>_. exampleAttr) [unnamedNode 1, unnamedNode 2])) \<and>
   ''default'' \<notin> set (materialNames twoMeshModel) \<and>
   extractModelData (\<lambda>_. exampleAttr) [] ''m.obj'' = Inl NoGeometryFound"
proof -
  have h: "ownUnnamedMaterials
     (map pickedMaterial (groupList (\<lambda>_. exampleAttr) [unnamedNode 1, unnamedNode 2]))"
    by code_simp
  have l: "length (groupList (\<lambda>_. exampleAttr) [unnamedNode 1, unnamedNode 2]) = 2"
    by code_simp
  note t = material_names [of "\<lambda>_. exampleAttr" "''m.obj''"
                              "[unnamedNode 1, unnamedNode 2]" twoMeshModel, unfolded l]
  note e = t [THEN conjunct1]
  note r = t [THEN conjunct2, THEN conjunct2, THEN mp, OF conjI [OF h two_mesh_model]]
  from h two_mesh_model r e show ?thesis by blast
qed

section \<open>Verification of the document serializer\<close>

subsection \<open>Text escaping\<close>

lemma replaceAllChar_append [simp]:
  "replaceAllChar c r (a @ b) = replaceAllChar c r a @ replaceAllChar c r b"
  by (simp add: replaceAllChar_def)

lemma replaceAllChar_Nil [simp]: "replaceAllChar c r [] = []"
  by (simp add: replaceAllChar_def)

lemma replaceAllChar_Cons:
  "replaceAllChar c r (x # xs) = (if x = c then r else [x]) @ replaceAllChar c r xs"
  by (simp add: replaceAllChar_def)

lemma escXml_Nil: "escXml [] = []"
  by (simp add: escXml_def)

lemma escXml_Cons: "escXml (x # xs) = escapeChar x @ escXml xs"
proof -
  have "escXml (x # xs) = escXml [x] @ escXml xs"
    unfolding escXml_def by (simp add: replaceAllChar_Cons)
  moreover have "escXml [x] = escapeChar x"
    unfolding escXml_def escapeChar_def by (simp add: replaceAllChar_Cons)
  ultimately show ?thesis by simp
qed

lemma escXml_concat: "escXml s = concat (map escapeChar s)"
  by (induction s) (simp_all add: escXml_Nil escXml_Cons)

lemma escapeChar_safe:
  "CHR ''<'' \<notin> set (escapeChar c)" "CHR ''>'' \<notin> set (escapeChar c)"
  "CHR 0x22 \<notin> set (escapeChar c)"
  by (auto simp: escapeChar_def)

text \<open>
  Claim C8. The claim as stated fails: of the five characters that XML reserves,
  \<open>escXml\<close> leaves the apostrophe as it is.
\<close>

theorem escXml_apostrophe_counterexample:
  "escXml [CHR 0x27] = [CHR 0x27] \<and> escXml ''it's'' = ''it's''"
  by (simp add: escXml_def replaceAllChar_def)

text \<open>
  Claim C8. (as amended) \<open>escXml\<close> replaces every occurrence of each of the four
  characters \<open>&\<close>, \<open><\<close>, \<open>>\<close> and the double quote by its entity reference, and copies
  every other character, the apostrophe included, unchanged; its output holds no
  \<open><\<close>, no \<open>>\<close> and no double quote.
\<close>

theorem escXml_four_characters:
  "escXml s = concat (map escapeChar s)
   \<and> CHR ''<'' \<notin> set (escXml s) \<and> CHR ''>'' \<notin> set (escXml s) \<and> CHR 0x22 \<notin> set (escXml s)
   \<and> escapeChar CHR ''&'' = ''&amp;'' \<and> escapeChar CHR ''<'' = ''&lt;''
   \<and> escapeChar CHR ''>'' = ''&gt;'' \<and> escapeChar (CHR 0x22) = ''&quot;''
   \<and> (c \<notin> {CHR ''&'', CHR ''<'', CHR ''>'', CHR 0x22} \<longrightarrow> escapeChar c = [c])"
proof -
  have "CHR ''<'' \<notin> set (escXml s)" "CHR ''>'' \<notin> set (escXml s)" "CHR 0x22 \<notin> set (escXml s)"
    unfolding escXml_concat using escapeChar_safe by auto
  moreover have "escapeChar CHR ''&'' = ''&amp;''" "escapeChar CHR ''<'' = ''&lt;''"
    "escapeChar CHR ''>'' = ''&gt;''" "escapeChar (CHR 0x22) = ''&quot;''"
    by (simp_all add: escapeChar_def)
  moreover have "c \<notin> {CHR ''&'', CHR ''<'', CHR ''>'', CHR 0x22} \<longrightarrow> escapeChar c = [c]"
    by (simp add: escapeChar_def)
  ultimately show ?thesis using escXml_concat by blast
qed

theorem escXml_four_characters_witness:
  "CHR 0x27 \<notin> {CHR ''&'', CHR ''<'', CHR ''>'', CHR 0x22} \<and> escapeChar (CHR 0x27) = [CHR 0x27] \<and>
   escXml ''a<b & c'' = concat (map escapeChar ''a<b & c'') \<and>
   escXml ''a<b & c'' = ''a&lt;b &amp; c''"
proof -
  have n: "CHR 0x27 \<notin> {CHR ''&'', CHR ''<'', CHR ''>'', CHR 0x22}" by simp
  note t = escXml_four_characters [where s = "''a<b & c''" and c = "CHR 0x27"]
  from t n have a: "escapeChar (CHR 0x27) = [CHR 0x27]" by blast
  from t have b: "escXml ''a<b & c'' = concat (map escapeChar ''a<b & c'')" by blast
  then have "escXml ''a<b & c'' = ''a&lt;b &amp; c''" by (simp add: escapeChar_def)
  with n a b show ?thesis by blast
qed

subsection \<open>Number formatting\<close>

lemma length_lastDigits [simp]: "length (lastDigits k m) = k"
  by (induction k arbitrary: m) simp_all

lemma decimal_small: "n < 10 \<Longrightarrow> decimal n = [digitChar n]"
  by (subst decimal.simps) simp

lemma decimal_large: "10 \<le> n \<Longrightarrow> decimal n = decimal (n div 10) @ [digitChar (n mod 10)]"
  by (subst decimal.simps) simp

lemma decimal_nonempty: "decimal n \<noteq> []"
  by (cases "n < 10") (simp_all add: decimal_small decimal_large)

lemma decimal_split:
  assumes "0 < q" "r < 10 ^ k"
  shows "decimal (q * 10 ^ k + r) = decimal q @ lastDigits k r"
  using assms(2)
proof (induction k arbitrary: r)
  case 0
  then show ?case by simp
next
  case (Suc k)
  let ?N = "q * 10 ^ Suc k + r"
  have big: "10 \<le> ?N"
  proof -
    have "(10::nat) * 1 \<le> 10 * 10 ^ k" by (rule mult_le_mono2) simp
    then have "(10::nat) \<le> 10 ^ Suc k" by simp
    also have "1 * 10 ^ Suc k \<le> q * 10 ^ Suc k" using assms(1) by (intro mult_le_mono1) simp
    then have "(10::nat) ^ Suc k \<le> q * 10 ^ Suc k" by (simp only: mult_1)
    finally show ?thesis by (rule trans_le_add1)
  qed
  have "?N = (q * 10 ^ k + r div 10) * 10 + r mod 10" by (simp add: algebra_simps)
  then have d: "?N div 10 = q * 10 ^ k + r div 10" and m: "?N mod 10 = r mod 10"
    by (metis add.commute div_mult_self3 mod_less_divisor div_less zero_less_numeral
          add.right_neutral zero_neq_numeral mod_mult_self3 mod_mod_trivial)+
  have "r div 10 < 10 ^ k" using Suc.prems by (simp add: less_mult_imp_div_less mult.commute)
  from Suc.IH [OF this] have "decimal (q * 10 ^ k + r div 10) = decimal q @ lastDigits k (r div 10)" .
  with big d m show ?case by (simp add: decimal_large)
qed

lemma lastDigits_zero: "lastDigits k 0 = replicate k CHR ''0''"
  by (induction k) (simp_all add: digitChar_def replicate_append_same)

lemma decimal_pad:
  assumes "n < 10 ^ k" "0 < k"
  shows "length (decimal n) \<le> k \<and>
         replicate (k - length (decimal n)) CHR ''0'' @ decimal n = lastDigits k n"
  using assms
proof (induction k arbitrary: n)
  case 0
  then show ?case by simp
next
  case (Suc k)
  show ?case
  proof (cases "n < 10")
    case True
    then have "lastDigits (Suc k) n = replicate k CHR ''0'' @ [digitChar n]"
      by (simp add: lastDigits_zero)
    with True show ?thesis by (simp add: decimal_small)
  next
    case False
    then have big: "10 \<le> n" by simp
    have kpos: "0 < k"
    proof (rule ccontr)
      assume "\<not> 0 < k"
      then have "k = 0" by simp
      with Suc.prems(1) big show False by simp
    qed
    have "n div 10 < 10 ^ k" using Suc.prems(1) by (simp add: less_mult_imp_div_less mult.commute)
    from Suc.IH [OF this kpos]
    have l: "length (decimal (n div 10)) \<le> k"
      and p: "replicate (k - length (decimal (n div 10))) CHR ''0'' @ decimal (n div 10) =
              lastDigits k (n div 10)"
      by simp_all
    show ?thesis using l p big by (simp add: decimal_large Suc_diff_le)
  qed
qed

lemma fixed_point_text:
  assumes "0 < fd"
  shows "(let m0 = decimal N; k0 = length m0;
              m1 = (if k0 \<le> fd then replicate (fd + 1 - k0) CHR ''0'' @ m0 else m0);
              k = (if k0 \<le> fd then fd + 1 else k0)
          in take (k - fd) m1 @ ''.'' @ drop (k - fd) m1) =
         decimal (N div 10 ^ fd) @ ''.'' @ lastDigits fd (N mod 10 ^ fd)"
proof (cases "N < 10 ^ fd")
  case True
  from decimal_pad [OF True assms]
  have l: "length (decimal N) \<le> fd"
    and p: "replicate (fd - length (decimal N)) CHR ''0'' @ decimal N = lastDigits fd N"
    by simp_all
  have "replicate (fd + 1 - length (decimal N)) CHR ''0'' @ decimal N =
        CHR ''0'' # (replicate (fd - length (decimal N)) CHR ''0'' @ decimal N)"
    using l by (simp add: Suc_diff_le)
  then have m1: "replicate (fd + 1 - length (decimal N)) CHR ''0'' @ decimal N =
                 CHR ''0'' # lastDigits fd N"
    by (simp only: p)
  have z: "decimal 0 = ''0''" by (simp add: decimal_small digitChar_def)
  show ?thesis using True l by (simp add: Let_def Suc_diff_le p z)
next
  case False
  define q where "q = N div 10 ^ fd"
  define r where "r = N mod 10 ^ fd"
  have q: "0 < q" using False by (simp add: q_def div_greater_zero_iff)
  have r: "r < 10 ^ fd" by (simp add: r_def)
  have N: "N = q * 10 ^ fd + r" unfolding q_def r_def by (rule div_mult_mod_eq [symmetric])
  have d: "decimal N = decimal q @ lastDigits fd r"
    unfolding N using q r by (rule decimal_split)
  have len: "length (decimal N) = length (decimal q) + fd" by (simp add: d)
  have "\<not> length (decimal N) \<le> fd" using len decimal_nonempty [of q] by (cases "decimal q") simp_all
  then show ?thesis
    unfolding q_def [symmetric] r_def [symmetric] by (simp add: Let_def len) (simp add: d)
qed

lemma toFixed_text:
  assumes "0 < fd" "\<bar>x\<bar> < 10 ^ 21"
  shows "toFixed numberToString fd x =
           signText x @ decimal (scaled fd x div 10 ^ fd) @ ''.''
             @ lastDigits fd (scaled fd x mod 10 ^ fd)"
proof -
  have ab: "(if x < 0 then - x else x) = \<bar>x\<bar>" by simp
  have small: "\<not> 10 ^ 21 \<le> \<bar>x\<bar>" using assms(2) by simp
  have "toFixed numberToString fd x =
          signText x @
          (let m0 = decimal (scaled fd x); k0 = length m0;
               m1 = (if k0 \<le> fd then replicate (fd + 1 - k0) CHR ''0'' @ m0 else m0);
               k = (if k0 \<le> fd then fd + 1 else k0)
           in take (k - fd) m1 @ ''.'' @ drop (k - fd) m1)"
    unfolding toFixed_def Let_def ab signText_def scaled_def using small assms(1) by simp
  then show ?thesis by (simp only: fixed_point_text [OF assms(1)])
qed

lemma scaled_integer: "scaled fd (rat_of_int z) = nat \<bar>z\<bar> * 10 ^ fd"
proof -
  have e: "\<bar>rat_of_int z\<bar> * 10 ^ fd + 1 / 2 = rat_of_int (\<bar>z\<bar> * 10 ^ fd) + 1 / 2" by simp
  have "\<lfloor>rat_of_int (\<bar>z\<bar> * 10 ^ fd) + 1 / 2\<rfloor> = \<bar>z\<bar> * 10 ^ fd"
    by (rule floor_unique) simp_all
  then have "\<lfloor>\<bar>rat_of_int z\<bar> * 10 ^ fd + 1 / 2\<rfloor> = \<bar>z\<bar> * 10 ^ fd"
    by (simp only: e)
  then show ?thesis by (simp add: scaled_def nat_mult_distrib nat_power_eq)
qed

lemma isDigit_digitChar: "d < 10 \<Longrightarrow> isDigit (digitChar d)"
proof -
  assume "d < 10"
  then have "d \<in> set [0..<10]" by simp
  then have "d \<in> {0, 1, 2, 3, 4, 5, 6, 7, 8, 9}"
    by (simp add: numeral_nat upt_rec) 
  then show ?thesis unfolding isDigit_def digitChar_def by auto
qed

lemma isDigit_not_dot: "isDigit c \<Longrightarrow> c \<noteq> CHR ''.''"
  by (auto simp: isDigit_def)

lemma digits_lastDigits: "list_all isDigit (lastDigits k m)"
  by (induction k arbitrary: m) (simp_all add: isDigit_digitChar)

lemma digits_decimal: "list_all isDigit (decimal n)"
proof (induction n rule: decimal.induct)
  case (1 n)
  show ?case
  proof (cases "n < 10")
    case True
    then show ?thesis by (simp add: decimal_small isDigit_digitChar)
  next
    case False
    with "1.IH" show ?thesis by (simp add: decimal_large isDigit_digitChar)
  qed
qed

lemma dropTrailingZeros_Cons:
  "dropTrailingZeros (c # cs) =
     (if list_all (\<lambda>c. c = CHR ''0'') (c # cs) then [] else c # dropTrailingZeros cs)"
proof (cases "list_all (\<lambda>c. c = CHR ''0'') cs")
  case True
  then have "dropWhile (\<lambda>c. c = CHR ''0'') (rev cs) = []"
    by (simp add: list_all_iff)
  then show ?thesis using True
    by (simp add: dropTrailingZeros_def dropWhile_append)
next
  case False
  then have "dropWhile (\<lambda>c. c = CHR ''0'') (rev cs) \<noteq> []"
    by (simp add: list_all_iff)
  then have "dropWhile (\<lambda>c. c = CHR ''0'') (rev cs @ [c]) =
             dropWhile (\<lambda>c. c = CHR ''0'') (rev cs) @ [c]"
    by (auto simp: dropWhile_append)
  then show ?thesis using False by (simp add: dropTrailingZeros_def)
qed

lemma dropTrailingZeros_Nil [simp]: "dropTrailingZeros [] = []"
  by (simp add: dropTrailingZeros_def)

lemma dropTrailingZeros_noop:
  "ds \<noteq> [] \<Longrightarrow> last ds \<noteq> CHR ''0'' \<Longrightarrow> dropTrailingZeros ds = ds"
  by (cases ds rule: rev_cases) (simp_all add: dropTrailingZeros_def)

lemma lazyDigitsThenZeros_digits:
  assumes "list_all isDigit ds"
  shows "lazyDigitsThenZeros ds =
           (if ds \<noteq> [] \<and> last ds = CHR ''0'' then Some (dropTrailingZeros ds) else None)"
  using assms
proof (induction ds)
  case Nil
  show ?case by (subst lazyDigitsThenZeros.simps) simp
next
  case (Cons c cs)
  then have c: "isDigit c" and cs: "list_all isDigit cs" by simp_all
  note IH = Cons.IH [OF cs]
  show ?case
  proof (cases "list_all (\<lambda>c. c = CHR ''0'') (c # cs)")
    case True
    have "last (c # cs) \<in> set (c # cs)" by (rule last_in_set) simp
    with True have "last (c # cs) = CHR ''0''"
      unfolding list_all_iff by blast
    with True show ?thesis
      by (subst lazyDigitsThenZeros.simps) (simp add: dropTrailingZeros_Cons)
  next
    case False
    show ?thesis
    proof (cases cs)
      case Nil
      have "lazyDigitsThenZeros [] = None" by (subst lazyDigitsThenZeros.simps) simp
      with Nil False c show ?thesis
        by (subst lazyDigitsThenZeros.simps) simp
    next
      case (Cons d ds')
      then have "last (c # cs) = last cs" "cs \<noteq> []" by simp_all
      with False c IH show ?thesis
        by (subst lazyDigitsThenZeros.simps) (auto simp: dropTrailingZeros_Cons)
    qed
  qed
qed

lemma stripTrailingZeros_no_dot:
  "CHR ''.'' \<notin> set s \<Longrightarrow> stripTrailingZeros s = s"
  by (induction s) auto

lemma stripTrailingZeros_prefix:
  "CHR ''.'' \<notin> set pre \<Longrightarrow> stripTrailingZeros (pre @ s) = pre @ stripTrailingZeros s"
  by (induction pre) auto

lemma digits_no_dot: "list_all isDigit ds \<Longrightarrow> CHR ''.'' \<notin> set ds"
  using isDigit_not_dot by (auto simp: list_all_iff)

lemma stripTrailingZeros_fixed:
  assumes "CHR ''.'' \<notin> set pre" "list_all isDigit ds"
  shows "stripTrailingZeros (pre @ ''.'' @ ds) = pre @ ''.'' @ dropTrailingZeros ds"
proof -
  have "stripTrailingZeros (''.'' @ ds) = ''.'' @ dropTrailingZeros ds"
  proof (cases "ds \<noteq> [] \<and> last ds = CHR ''0''")
    case True
    then show ?thesis using lazyDigitsThenZeros_digits [OF assms(2)]
      by simp
  next
    case False
    have n: "stripTrailingZeros ds = ds"
      using digits_no_dot [OF assms(2)] by (rule stripTrailingZeros_no_dot)
    have d: "dropTrailingZeros ds = ds"
      using False dropTrailingZeros_noop [of ds] by (cases "ds = []") auto
    show ?thesis using False lazyDigitsThenZeros_digits [OF assms(2)] n d
      by simp
  qed
  with stripTrailingZeros_prefix [OF assms(1)] show ?thesis by simp
qed

lemma dropTrailingZeros_last:
  "dropTrailingZeros ds \<noteq> [] \<Longrightarrow> last (dropTrailingZeros ds) \<in> set ds \<and> last (dropTrailingZeros ds) \<noteq> CHR ''0''"
proof -
  assume ne: "dropTrailingZeros ds \<noteq> []"
  then have a: "dropWhile (\<lambda>c. c = CHR ''0'') (rev ds) \<noteq> []" by (simp add: dropTrailingZeros_def)
  have "last (dropTrailingZeros ds) = hd (dropWhile (\<lambda>c. c = CHR ''0'') (rev ds))"
    using a by (simp add: dropTrailingZeros_def last_rev)
  moreover have "hd (dropWhile (\<lambda>c. c = CHR ''0'') (rev ds)) \<noteq> CHR ''0''"
    using a hd_dropWhile by blast
  moreover have "hd (dropWhile (\<lambda>c. c = CHR ''0'') (rev ds)) \<in> set ds"
    using a by (metis hd_in_set set_dropWhileD set_rev)
  ultimately show ?thesis by simp
qed

lemma dotAtEnd_fixed:
  assumes "list_all isDigit ds"
  shows "dotAtEnd (pre @ ''.'' @ dropTrailingZeros ds) =
           pre @ ''.'' @ (if dropTrailingZeros ds = [] then ''0'' else dropTrailingZeros ds)"
proof (cases "dropTrailingZeros ds = []")
  case True
  then show ?thesis by (simp add: dotAtEnd_def)
next
  case False
  from dropTrailingZeros_last [OF False] assms
  have "isDigit (last (dropTrailingZeros ds))" by (auto simp: list_all_iff)
  then have "last (dropTrailingZeros ds) \<noteq> CHR ''.''" by (rule isDigit_not_dot)
  with False show ?thesis by (simp add: dotAtEnd_def)
qed

lemma signText_no_dot: "CHR ''.'' \<notin> set (signText n)"
  by (simp add: signText_def)

lemma isInteger_of_int: "isInteger n \<Longrightarrow> n = rat_of_int \<lfloor>n\<rfloor>"
  by (simp add: isInteger_def)

lemma f_number_integer:
  assumes "isInteger n" "\<bar>n\<bar> < 10 ^ 21"
  shows "f_number ts n = signText n @ decimal (nat \<bar>\<lfloor>n\<rfloor>\<bar>) @ ''.0''"
proof -
  define z where "z = \<lfloor>n\<rfloor>"
  have n: "n = rat_of_int z" using assms(1) by (simp add: isInteger_def z_def)
  have s: "scaled 1 n = nat \<bar>z\<bar> * 10" unfolding n using scaled_integer [of 1 z] by simp
  have "f_number ts n = toFixed ts 1 n" using assms(1) by (simp add: f_number_def)
  also have "\<dots> = signText n @ decimal (scaled 1 n div 10 ^ 1) @ ''.'' @ lastDigits 1 (scaled 1 n mod 10 ^ 1)"
    using assms(2) by (intro toFixed_text) simp_all
  also have "\<dots> = signText n @ decimal (nat \<bar>z\<bar>) @ ''.0''"
    unfolding s by (simp add: digitChar_def)
  finally show ?thesis by (simp only: z_def)
qed

lemma f_number_fraction:
  assumes "\<not> isInteger n" "\<bar>n\<bar> < 10 ^ 21"
  shows "f_number ts n =
           signText n @ decimal (scaled 7 n div 10 ^ 7) @ ''.'' @ fractionText (scaled 7 n mod 10 ^ 7)"
proof -
  let ?pre = "signText n @ decimal (scaled 7 n div 10 ^ 7)"
  let ?ds = "lastDigits 7 (scaled 7 n mod 10 ^ 7)"
  have pre: "CHR ''.'' \<notin> set ?pre"
    using signText_no_dot [of n] digits_no_dot [OF digits_decimal] by simp
  have ds: "list_all isDigit ?ds" by (rule digits_lastDigits)
  have "f_number ts n = dotAtEnd (stripTrailingZeros (toFixed ts 7 n))"
    using assms(1) by (simp add: f_number_def)
  also have "toFixed ts 7 n = ?pre @ ''.'' @ ?ds"
    using assms(2) toFixed_text [of 7 n ts] by simp
  also have "stripTrailingZeros (?pre @ ''.'' @ ?ds) = ?pre @ ''.'' @ dropTrailingZeros ?ds"
    using pre ds by (rule stripTrailingZeros_fixed)
  also have "dotAtEnd (?pre @ ''.'' @ dropTrailingZeros ?ds) =
             ?pre @ ''.'' @ (if dropTrailingZeros ?ds = [] then ''0'' else dropTrailingZeros ?ds)"
    using ds by (rule dotAtEnd_fixed)
  finally show ?thesis by (simp add: fractionText_def)
qed

lemma fractionText_shape:
  "1 \<le> length (fractionText m) \<and> length (fractionText m) \<le> 7 \<and>
   list_all isDigit (fractionText m) \<and>
   (fractionText m = ''0'' \<or> last (fractionText m) \<noteq> CHR ''0'')"
proof (cases "dropTrailingZeros (lastDigits 7 m) = []")
  case True
  then show ?thesis by (simp add: fractionText_def isDigit_def)
next
  case False
  let ?ds = "lastDigits 7 m"
  have f: "fractionText m = dropTrailingZeros ?ds" using False by (simp add: fractionText_def)
  have "length (dropTrailingZeros ?ds) \<le> length ?ds"
    unfolding dropTrailingZeros_def using length_dropWhile_le [of _ "rev ?ds"] by simp
  then have le: "length (dropTrailingZeros ?ds) \<le> 7" by simp
  have sub: "set (dropTrailingZeros ?ds) \<subseteq> set ?ds"
    unfolding dropTrailingZeros_def using set_dropWhileD [of _ _ "rev ?ds"] by auto
  have dg: "list_all isDigit (dropTrailingZeros ?ds)"
    using digits_lastDigits [of 7 m] sub unfolding list_all_iff by blast
  from dropTrailingZeros_last [OF False] have "last (dropTrailingZeros ?ds) \<noteq> CHR ''0''" by simp
  with False le dg show ?thesis unfolding f by (cases "dropTrailingZeros ?ds") auto
qed

lemma f_number_one: "f_number ts 1 = ''1.0''"
proof -
  have i: "isInteger 1" by (simp add: isInteger_def)
  have d: "decimal (Suc 0) = ''1''" by (simp add: decimal_small digitChar_def)
  from f_number_integer [OF i, of ts] show ?thesis by (simp add: signText_def d)
qed

lemma lastDigits_7:
  "lastDigits 7 m =
     [digitChar (m div 1000000 mod 10), digitChar (m div 100000 mod 10),
      digitChar (m div 10000 mod 10), digitChar (m div 1000 mod 10),
      digitChar (m div 100 mod 10), digitChar (m div 10 mod 10), digitChar (m mod 10)]"
proof -
  have e: "(7::nat) = Suc (Suc (Suc (Suc (Suc (Suc (Suc 0))))))" by simp
  show ?thesis by (subst e) (simp add: div_mult2_eq [symmetric])
qed

lemma f_number_third: "f_number ts (33333333 / 100000000) = ''0.3333333''"
proof -
  have i: "\<not> isInteger (33333333 / 100000000)" by code_simp
  have "\<lfloor>\<bar>33333333 / 100000000 :: rat\<bar> * 10 ^ 7 + 1 / 2\<rfloor> = 3333333"
    by (rule floor_unique) simp_all
  then have s: "scaled 7 (33333333 / 100000000) = 3333333" by (simp add: scaled_def)
  have d0: "decimal 0 = ''0''" by (simp add: decimal_small digitChar_def)
  have fr: "fractionText 3333333 = ''3333333''"
    by (simp add: fractionText_def lastDigits_7 dropTrailingZeros_def digitChar_def)
  from f_number_fraction [OF i, of ts] show ?thesis by (simp add: s signText_def d0 fr)
qed

text \<open>
  Claim C5. The claim as stated fails for large values: the number \<open>10 ^ 21\<close> is
  integral and finite, \<open>toFixed\<close> hands it to \<open>Number::toString\<close>, which writes
  \<open>1e+21\<close>, and the formatter returns that text, which has no fractional digit.
\<close>

theorem number_format_huge_counterexample:
  "isInteger (10 ^ 21) \<and>
   f_number (\<lambda>_. ''1e+21'') (10 ^ 21) = ''1e+21'' \<and>
   CHR ''.'' \<notin> set (f_number (\<lambda>_. ''1e+21'') (10 ^ 21))"
proof -
  have "rat_of_int (10 ^ 21) = 10 ^ 21" by simp
  then have "\<lfloor>10 ^ 21 :: rat\<rfloor> = 10 ^ 21" by (metis floor_of_int)
  then have i: "isInteger (10 ^ 21)" by (simp add: isInteger_def)
  then have "f_number (\<lambda>_. ''1e+21'') (10 ^ 21) = ''1e+21''"
    by (simp add: f_number_def toFixed_def)
  with i show ?thesis by simp
qed

text \<open>
  Claim C5. (as amended) For every finite value of magnitude below \<open>10 ^ 21\<close>: an
  integral value is rendered as its sign, its decimal digits and exactly one fractional
  digit, \<open>.0\<close>; a value that is not integral is rounded to seven fractional digits
  (to the nearest, upwards in a tie) and rendered as its sign, its integer digits, a point
  and the seven fractional digits without their trailing zeros, where one digit is kept
  when all seven are zero. So the fraction has between one and seven digits and ends in
  a zero only when it is the single digit \<open>0\<close>. The value 1 is rendered \<open>1.0\<close>, and
  \<open>0.33333333\<close> (here the rational of that decimal; the nearest double rounds to the
  same seven digits) is rendered \<open>0.3333333\<close>.
\<close>

theorem number_format:
  "(isInteger n \<and> \<bar>n\<bar> < 10 ^ 21 \<longrightarrow>
      f_number ts n = signText n @ decimal (nat \<bar>\<lfloor>n\<rfloor>\<bar>) @ ''.0'')
   \<and> (\<not> isInteger n \<and> \<bar>n\<bar> < 10 ^ 21 \<longrightarrow>
      f_number ts n =
        signText n @ decimal (scaled 7 n div 10 ^ 7) @ ''.''
          @ fractionText (scaled 7 n mod 10 ^ 7))
   \<and> 1 \<le> length (fractionText m) \<and> length (fractionText m) \<le> 7
   \<and> list_all isDigit (fractionText m)
   \<and> (fractionText m = ''0'' \<or> last (fractionText m) \<noteq> CHR ''0'')
   \<and> f_number ts 1 = ''1.0''
   \<and> f_number ts (33333333 / 100000000) = ''0.3333333''"
  using f_number_integer [of n ts] f_number_fraction [of n ts] fractionText_shape [of m]
    f_number_one [of ts] f_number_third [of ts]
  by blast

theorem number_format_witness:
  "(isInteger (- 3) \<and> \<bar>- 3 :: rat\<bar> < 10 ^ 21) \<and>
   f_number (\<lambda>_. ''1e+21'') (- 3) = ''-3.0'' \<and>
   (\<not> isInteger (- 1205 / 100) \<and> \<bar>- 1205 / 100 :: rat\<bar> < 10 ^ 21) \<and>
   f_number (\<lambda>_. ''1e+21'') (- 1205 / 100) = ''-12.05'' \<and>
   fractionText 500000 = ''05''"
proof -
  have i: "isInteger (- 3)" by code_simp
  have b: "\<bar>- 3 :: rat\<bar> < 10 ^ 21" by simp
  have ni: "\<not> isInteger (- 1205 / 100)" by code_simp
  have nb: "\<bar>- 1205 / 100 :: rat\<bar> < 10 ^ 21" by simp
  have fl: "\<lfloor>- 3 :: rat\<rfloor> = - 3" by simp
  have d3: "decimal 3 = ''3''" by (simp add: decimal_small digitChar_def)
  have "\<lfloor>\<bar>- 1205 / 100 :: rat\<bar> * 10 ^ 7 + 1 / 2\<rfloor> = 120500000"
    by (rule floor_unique) simp_all
  then have s: "scaled 7 (- 1205 / 100) = 120500000" by (simp add: scaled_def)
  have d12: "decimal 12 = ''12''"
    by (simp add: decimal_large decimal_small digitChar_def)
  have fr: "fractionText 500000 = ''05''"
    by (simp add: fractionText_def lastDigits_7 dropTrailingZeros_def digitChar_def)
  note t1 = number_format [where n = "- 3" and ts = "\<lambda>_. ''1e+21''"]
  note t2 = number_format [where n = "- 1205 / 100" and ts = "\<lambda>_. ''1e+21''"]
  from t1 i b have "f_number (\<lambda>_. ''1e+21'') (- 3) =
      signText (- 3) @ decimal (nat \<bar>\<lfloor>- 3 :: rat\<rfloor>\<bar>) @ ''.0''"
    by blast
  then have c1: "f_number (\<lambda>_. ''1e+21'') (- 3) = ''-3.0''"
    by (simp add: fl d3 signText_def)
  from t2 ni nb have "f_number (\<lambda>_. ''1e+21'') (- 1205 / 100) =
        signText (- 1205 / 100) @ decimal (scaled 7 (- 1205 / 100) div 10 ^ 7) @ ''.''
          @ fractionText (scaled 7 (- 1205 / 100) mod 10 ^ 7)"
    by blast
  then have c2: "f_number (\<lambda>_. ''1e+21'') (- 1205 / 100) = ''-12.05''"
    unfolding s by (simp add: signText_def d12 fr)
  from i b c1 ni nb c2 fr show ?thesis by blast
qed

section \<open>Verification of the export orchestrator\<close>

lemma convertedFrom_mono:
  "convertedFrom br slots e \<Longrightarrow> set slots \<subseteq> set slots' \<Longrightarrow> convertedFrom br slots' e"
  unfolding convertedFrom_def by blast

lemma convertedFrom_sampler:
  "convertedFrom br slots e \<Longrightarrow> convertedFrom br slots (e\<lparr>te_samplerName := s\<rparr>)"
  unfolding convertedFrom_def by simp

lemma slotStep_failure:
  assumes "slot_file slot = Some file"
    and "processedTextures st (sanitizeTextureName (file_name file)) = None"
    and "encodeToDds br file None = Inl err"
  shows "slotStep br (sampler, slot) st = st\<lparr>texCount := texCount st + 1\<rparr>"
  using assms by (simp add: slotStep_def Let_def)

lemma slotStep_inv:
  assumes inv: "exportInv br slots st"
  shows "exportInv br (slots @ [(sampler, slot)]) (slotStep br (sampler, slot) st)"
proof -
  let ?slots' = "slots @ [(sampler, slot)]"
  from inv have en: "\<forall>e \<in> set (textureEntries st). convertedFrom br slots e"
    and pr: "\<forall>n e. processedTextures st n = Some e \<longrightarrow> convertedFrom br slots e \<and> te_name e = n"
    and al: "\<forall>(sampler, slot) \<in> set slots. \<forall>file r.
         slot_file slot = Some file \<and> encodeToDds br file None = Inr r \<longrightarrow>
         (\<exists>e \<in> set (textureEntries st).
            te_name e = sanitizeTextureName (file_name file) \<and> te_samplerName e = sampler)"
    unfolding exportInv_def by blast+
  have sub: "set slots \<subseteq> set ?slots'" by auto
  have en': "\<forall>e \<in> set (textureEntries st). convertedFrom br ?slots' e"
    using en convertedFrom_mono [OF _ sub] by blast
  have pr': "\<forall>n e. processedTextures st n = Some e \<longrightarrow> convertedFrom br ?slots' e \<and> te_name e = n"
    using pr convertedFrom_mono [OF _ sub] by blast
  show ?thesis
  proof (cases "slot_file slot")
    case None
    then have s: "slotStep br (sampler, slot) st = st" by (simp add: slotStep_def)
    show ?thesis
      unfolding s exportInv_def using en' pr' al None by auto
  next
    case (Some fl)
    define texName where "texName = sanitizeTextureName (file_name fl)"
    show ?thesis
    proof (cases "processedTextures st texName")
      case existing: (Some ex)
      have s: "slotStep br (sampler, slot) st =
                 st\<lparr>textureEntries := textureEntries st @ [ex\<lparr>te_samplerName := sampler\<rparr>]\<rparr>"
        using Some existing by (simp add: slotStep_def Let_def texName_def)
      from pr' existing have exc: "convertedFrom br ?slots' ex" and exn: "te_name ex = texName"
        by blast+
      have new: "convertedFrom br ?slots' (ex\<lparr>te_samplerName := sampler\<rparr>)"
        using exc by (rule convertedFrom_sampler)
      show ?thesis
        unfolding s exportInv_def
      proof (intro conjI)
        show "\<forall>e \<in> set (textureEntries (st\<lparr>textureEntries := textureEntries st @ [ex\<lparr>te_samplerName := sampler\<rparr>]\<rparr>)).
                convertedFrom br ?slots' e"
          using en' new by auto
        show "\<forall>n e. processedTextures (st\<lparr>textureEntries := textureEntries st @ [ex\<lparr>te_samplerName := sampler\<rparr>]\<rparr>) n = Some e \<longrightarrow>
                convertedFrom br ?slots' e \<and> te_name e = n"
          using pr' by simp
        show "\<forall>(sampler', slot') \<in> set ?slots'. \<forall>file' r.
                slot_file slot' = Some file' \<and> encodeToDds br file' None = Inr r \<longrightarrow>
                (\<exists>e \<in> set (textureEntries (st\<lparr>textureEntries := textureEntries st @ [ex\<lparr>te_samplerName := sampler\<rparr>]\<rparr>)).
                   te_name e = sanitizeTextureName (file_name file') \<and> te_samplerName e = sampler')"
          using al Some exn by (fastforce simp: texName_def)
      qed
    next
      case fresh: None
      show ?thesis
      proof (cases "encodeToDds br fl None")
        case (Inl err)
        have s: "slotStep br (sampler, slot) st = st\<lparr>texCount := texCount st + 1\<rparr>"
          using Some fresh Inl by (simp add: slotStep_failure texName_def)
        show ?thesis
          unfolding s exportInv_def using en' pr' al Some Inl by auto
      next
        case (Inr r)
        define entry where "entry = \<lparr>te_name = texName, te_samplerName = sampler,
                                       te_width = enc_width r, te_height = enc_height r,
                                       te_format = enc_format r,
                                       te_fileName = texName @ ''.dds''\<rparr>"
        have s: "slotStep br (sampler, slot) st =
                   st\<lparr>texCount := texCount st + 1,
                      textureEntries := textureEntries st @ [entry],
                      ddsFiles := ddsFiles st @ [(texName @ ''.dds'', enc_dds r)],
                      processedTextures := (processedTextures st)(texName \<mapsto> entry)\<rparr>"
          using Some fresh Inr by (simp add: slotStep_def Let_def texName_def entry_def)
        have new: "convertedFrom br ?slots' entry"
          unfolding convertedFrom_def
          by (rule exI [of _ sampler], rule exI [of _ slot], rule exI [of _ fl], rule exI [of _ r])
             (simp add: Some Inr entry_def texName_def)
        show ?thesis
          unfolding s exportInv_def
        proof (intro conjI)
          show "\<forall>e \<in> set (textureEntries (st\<lparr>texCount := texCount st + 1,
                      textureEntries := textureEntries st @ [entry],
                      ddsFiles := ddsFiles st @ [(texName @ ''.dds'', enc_dds r)],
                      processedTextures := (processedTextures st)(texName \<mapsto> entry)\<rparr>)).
                  convertedFrom br ?slots' e"
            using en' new by auto
          show "\<forall>n e. processedTextures (st\<lparr>texCount := texCount st + 1,
                      textureEntries := textureEntries st @ [entry],
                      ddsFiles := ddsFiles st @ [(texName @ ''.dds'', enc_dds r)],
                      processedTextures := (processedTextures st)(texName \<mapsto> entry)\<rparr>) n = Some e \<longrightarrow>
                  convertedFrom br ?slots' e \<and> te_name e = n"
            using pr' new by (auto simp: entry_def)
          show "\<forall>(sampler', slot') \<in> set ?slots'. \<forall>file' r'.
                  slot_file slot' = Some file' \<and> encodeToDds br file' None = Inr r' \<longrightarrow>
                  (\<exists>e \<in> set (textureEntries (st\<lparr>texCount := texCount st + 1,
                      textureEntries := textureEntries st @ [entry],
                      ddsFiles := ddsFiles st @ [(texName @ ''.dds'', enc_dds r)],
                      processedTextures := (processedTextures st)(texName \<mapsto> entry)\<rparr>)).
                     te_name e = sanitizeTextureName (file_name file') \<and> te_samplerName e = sampler')"
            using al Some by (fastforce simp: texName_def entry_def)
        qed
      qed
    qed
  qed
qed

lemma fold_slotStep_inv:
  assumes "exportInv br done st"
  shows "exportInv br (done @ slots) (fold (slotStep br) slots st)"
  using assms
proof (induction slots arbitrary: "done" st)
  case Nil
  then show ?case by simp
next
  case (Cons s slots)
  obtain sampler slot where s: "s = (sampler, slot)" by (cases s)
  from slotStep_inv [OF Cons.prems, of sampler slot]
  have "exportInv br (done @ [s]) (slotStep br s st)" by (simp add: s)
  from Cons.IH [OF this] show ?case by simp
qed

lemma fold_fold_concat: "fold (\<lambda>x. fold g (h x)) xs st = fold g (concat (map h xs)) st"
  by (induction xs arbitrary: st) simp_all

lemma convertTextures_flat:
  "convertTextures br materials =
     fold (slotStep br) (concat (map mc_textures materials))
       \<lparr>textureEntries = [], ddsFiles = [], processedTextures = Map.empty, texCount = 0\<rparr>"
  by (simp add: convertTextures_def fold_fold_concat)

lemma convertTextures_inv:
  "exportInv br (concat (map mc_textures materials)) (convertTextures br materials)"
proof -
  have "exportInv br [] \<lparr>textureEntries = [], ddsFiles = [], processedTextures = Map.empty, texCount = 0\<rparr>"
    by (simp add: exportInv_def)
  from fold_slotStep_inv [OF this, of "concat (map mc_textures materials)"]
  show ?thesis by (simp add: convertTextures_flat)
qed

lemma sanitize_wall: "sanitizeTextureName ''Wall.png'' = ''wall''"
  by code_simp

lemma example_encode_wall:
  "\<exists>r. encodeToDds exampleBrowser \<lparr>file_name = ''Wall.png'', file_bytes = [1]\<rparr> None = Inr r \<and>
        enc_width r = 4 \<and> enc_height r = 4 \<and> enc_format r = DXT5"
proof -
  let ?f = "\<lparr>file_name = ''Wall.png'', file_bytes = [1]\<rparr>"
  have n: "\<not> isDdsFile (file_bytes ?f)" by (simp add: isDdsFile_def)
  have d: "decodeImageToRGBA exampleBrowser ?f =
             Inr \<lparr>dec_data = [9, 9, 9, 100], dec_width = 4, dec_height = 4\<rparr>"
    by (simp add: decodeImageToRGBA_def exampleBrowser_def nearestPowerOf2_def
          pow2_loop.simps capped_def)
  have "hasAlpha [9, 9, 9, 100]"
    unfolding hasAlpha_iff by (rule exI [of _ 0]) simp
  with n d show ?thesis by (simp add: encodeToDds_def Let_def)
qed

lemma example_encode_bad:
  "encodeToDds exampleBrowser \<lparr>file_name = ''bad.png'', file_bytes = []\<rparr> None = Inl ImageDecodeError"
  by (simp add: encodeToDds_def isDdsFile_def decodeImageToRGBA_def exampleBrowser_def)

lemma example_batch_entries:
  "textureEntries (convertTextures exampleBrowser exampleBatch) =
     [wallEntry\<lparr>te_samplerName := ''BumpSampler''\<rparr>]"
proof -
  obtain r where r: "encodeToDds exampleBrowser \<lparr>file_name = ''Wall.png'', file_bytes = [1]\<rparr> None = Inr r"
    and p: "enc_width r = 4" "enc_height r = 4" "enc_format r = DXT5"
    using example_encode_wall by blast
  have s: "sanitizeTextureName ''bad.png'' = ''bad''" by code_simp
  show ?thesis
    by (simp add: convertTextures_def exampleBatch_def slotStep_def slotOf_def
          sanitize_wall s example_encode_bad r p wallEntry_def Let_def)
qed

text \<open>
  Claim C7. A texture whose conversion fails never aborts the export. The export fails
  exactly when the serializer fails, on the entry list accumulated by the texture loop;
  when the serializer succeeds the export completes with the document first and one file
  for each converted texture. A slot whose file fails to convert leaves the entries, the
  files and the dictionary of processed textures as they were (the texture is omitted);
  every slot whose file converts, wherever it stands among failing ones, has an entry with
  its sampler name; and every entry comes from a successful conversion of a file of its
  name.
\<close>

theorem texture_failure_does_not_abort:
  "(exportYdr br generateYdrXml name model materials = Inl e \<longleftrightarrow>
      generateYdrXml \<lparr>opt_name = name, opt_model = model, opt_materials = materials,
                      opt_textures = textureEntries (convertTextures br materials)\<rparr> = Inl e)
   \<and> (generateYdrXml \<lparr>opt_name = name, opt_model = model, opt_materials = materials,
                        opt_textures = textureEntries (convertTextures br materials)\<rparr> = Inr xml \<longrightarrow>
        (\<exists>out. exportYdr br generateYdrXml name model materials = Inr out \<and>
               hd (archiveFiles out) = (name @ ''.ydr.xml'', Inl xml) \<and>
               length (archiveFiles out) = 1 + length (ddsFiles (convertTextures br materials))))
   \<and> (slot_file slot = Some fl \<and>
       processedTextures st (sanitizeTextureName (file_name fl)) = None \<and>
       encodeToDds br fl None = Inl err \<longrightarrow>
        slotStep br (sampler, slot) st = st\<lparr>texCount := texCount st + 1\<rparr>)
   \<and> ((sampler', slot') \<in> set (concat (map mc_textures materials)) \<and>
       slot_file slot' = Some fl' \<and> encodeToDds br fl' None = Inr r \<longrightarrow>
        (\<exists>entry \<in> set (textureEntries (convertTextures br materials)).
           te_name entry = sanitizeTextureName (file_name fl') \<and> te_samplerName entry = sampler'))
   \<and> (entry \<in> set (textureEntries (convertTextures br materials)) \<longrightarrow>
        convertedFrom br (concat (map mc_textures materials)) entry)"
proof (intro conjI impI)
  show "exportYdr br generateYdrXml name model materials = Inl e \<longleftrightarrow>
      generateYdrXml \<lparr>opt_name = name, opt_model = model, opt_materials = materials,
                      opt_textures = textureEntries (convertTextures br materials)\<rparr> = Inl e"
    by (simp add: exportYdr_def Let_def split: sum.split)
next
  assume "generateYdrXml \<lparr>opt_name = name, opt_model = model, opt_materials = materials,
                        opt_textures = textureEntries (convertTextures br materials)\<rparr> = Inr xml"
  then show "\<exists>out. exportYdr br generateYdrXml name model materials = Inr out \<and>
               hd (archiveFiles out) = (name @ ''.ydr.xml'', Inl xml) \<and>
               length (archiveFiles out) = 1 + length (ddsFiles (convertTextures br materials))"
    by (simp add: exportYdr_def Let_def)
next
  assume "slot_file slot = Some fl \<and>
       processedTextures st (sanitizeTextureName (file_name fl)) = None \<and>
       encodeToDds br fl None = Inl err"
  then show "slotStep br (sampler, slot) st = st\<lparr>texCount := texCount st + 1\<rparr>"
    using slotStep_failure by blast
next
  assume a: "(sampler', slot') \<in> set (concat (map mc_textures materials)) \<and>
       slot_file slot' = Some fl' \<and> encodeToDds br fl' None = Inr r"
  from convertTextures_inv [of br materials]
  have "\<forall>(sampler, slot) \<in> set (concat (map mc_textures materials)). \<forall>file r.
         slot_file slot = Some file \<and> encodeToDds br file None = Inr r \<longrightarrow>
         (\<exists>e \<in> set (textureEntries (convertTextures br materials)).
            te_name e = sanitizeTextureName (file_name file) \<and> te_samplerName e = sampler)"
    unfolding exportInv_def by blast
  with a show "\<exists>entry \<in> set (textureEntries (convertTextures br materials)).
           te_name entry = sanitizeTextureName (file_name fl') \<and> te_samplerName entry = sampler'"
    by fast
next
  assume "entry \<in> set (textureEntries (convertTextures br materials))"
  with convertTextures_inv [of br materials]
  show "convertedFrom br (concat (map mc_textures materials)) entry"
    unfolding exportInv_def by blast
qed

theorem texture_failure_does_not_abort_witness:
  "encodeToDds exampleBrowser \<lparr>file_name = ''bad.png'', file_bytes = []\<rparr> None = Inl ImageDecodeError \<and>
   slotStep exampleBrowser (''DiffuseSampler'', slotOf ''bad.png'' [])
      \<lparr>textureEntries = [], ddsFiles = [], processedTextures = Map.empty, texCount = 0\<rparr> =
     \<lparr>textureEntries = [], ddsFiles = [], processedTextures = Map.empty, texCount = 1\<rparr> \<and>
   (''BumpSampler'', slotOf ''Wall.png'' [1]) \<in> set (concat (map mc_textures exampleBatch)) \<and>
   (\<exists>r. encodeToDds exampleBrowser \<lparr>file_name = ''Wall.png'', file_bytes = [1]\<rparr> None = Inr r) \<and>
   (\<exists>entry \<in> set (textureEntries (convertTextures exampleBrowser exampleBatch)).
       te_name entry = ''wall'' \<and> te_samplerName entry = ''BumpSampler'') \<and>
   exampleSerializer \<lparr>opt_name = ''prop'', opt_model = exampleModel, opt_materials = exampleBatch,
       opt_textures = textureEntries (convertTextures exampleBrowser exampleBatch)\<rparr> = Inr ''wall'' \<and>
   (\<exists>out. exportYdr exampleBrowser exampleSerializer ''prop'' exampleModel exampleBatch = Inr out \<and>
          hd (archiveFiles out) = (''prop.ydr.xml'', Inl ''wall'')) \<and>
   convertedFrom exampleBrowser (concat (map mc_textures exampleBatch))
      (wallEntry\<lparr>te_samplerName := ''BumpSampler''\<rparr>)"
proof -
  let ?bad = "\<lparr>file_name = ''bad.png'', file_bytes = []\<rparr>"
  let ?wall = "\<lparr>file_name = ''Wall.png'', file_bytes = [1]\<rparr>"
  let ?init = "\<lparr>textureEntries = [], ddsFiles = [], processedTextures = Map.empty, texCount = 0\<rparr>"
  obtain r where r: "encodeToDds exampleBrowser ?wall None = Inr r"
    using example_encode_wall by blast
  note t = texture_failure_does_not_abort
    [where br = exampleBrowser and generateYdrXml = exampleSerializer and name = "''prop''"
       and model = exampleModel and materials = exampleBatch and xml = "''wall''"
       and slot = "slotOf ''bad.png'' []" and fl = ?bad and st = ?init and err = ImageDecodeError
       and sampler = "''DiffuseSampler''"
       and sampler' = "''BumpSampler''" and slot' = "slotOf ''Wall.png'' [1]" and fl' = ?wall
       and r = r and entry = "wallEntry\<lparr>te_samplerName := ''BumpSampler''\<rparr>"]
  have h1: "slot_file (slotOf ''bad.png'' []) = Some ?bad" by (simp add: slotOf_def)
  have h2: "processedTextures ?init (sanitizeTextureName (file_name ?bad)) = None" by simp
  have h3: "(''BumpSampler'', slotOf ''Wall.png'' [1]) \<in> set (concat (map mc_textures exampleBatch))"
    by (simp add: exampleBatch_def)
  have h4: "slot_file (slotOf ''Wall.png'' [1]) = Some ?wall" by (simp add: slotOf_def)
  have h5: "exampleSerializer \<lparr>opt_name = ''prop'', opt_model = exampleModel,
       opt_materials = exampleBatch,
       opt_textures = textureEntries (convertTextures exampleBrowser exampleBatch)\<rparr> = Inr ''wall''"
    by (simp add: exampleSerializer_def example_batch_entries wallEntry_def)
  have h6: "wallEntry\<lparr>te_samplerName := ''BumpSampler''\<rparr>
              \<in> set (textureEntries (convertTextures exampleBrowser exampleBatch))"
    by (simp add: example_batch_entries)
  from t h1 h2 example_encode_bad
  have c1: "slotStep exampleBrowser (''DiffuseSampler'', slotOf ''bad.png'' []) ?init =
              ?init\<lparr>texCount := texCount ?init + 1\<rparr>"
    by blast
  from t h3 h4 r
  have c2: "\<exists>entry \<in> set (textureEntries (convertTextures exampleBrowser exampleBatch)).
       te_name entry = sanitizeTextureName (file_name ?wall) \<and> te_samplerName entry = ''BumpSampler''"
    by blast
  from t h5
  have c3: "\<exists>out. exportYdr exampleBrowser exampleSerializer ''prop'' exampleModel exampleBatch = Inr out \<and>
          hd (archiveFiles out) = (''prop'' @ ''.ydr.xml'', Inl ''wall'')"
    by blast
  from t h6
  have c4: "convertedFrom exampleBrowser (concat (map mc_textures exampleBatch))
      (wallEntry\<lparr>te_samplerName := ''BumpSampler''\<rparr>)"
    by blast
  from c1 have c1': "slotStep exampleBrowser (''DiffuseSampler'', slotOf ''bad.png'' []) ?init =
     \<lparr>textureEntries = [], ddsFiles = [], processedTextures = Map.empty, texCount = 1\<rparr>"
    by simp
  from c2 have c2': "\<exists>entry \<in> set (textureEntries (convertTextures exampleBrowser exampleBatch)).
       te_name entry = ''wall'' \<and> te_samplerName entry = ''BumpSampler''"
    by (simp add: sanitize_wall)
  from c3 have c3': "\<exists>out. exportYdr exampleBrowser exampleSerializer ''prop'' exampleModel exampleBatch = Inr out \<and>
          hd (archiveFiles out) = (''prop.ydr.xml'', Inl ''wall'')"
    by simp
  from example_encode_bad c1' h3 r c2' h5 c3' c4 show ?thesis by blast
qed

section \<open>Texture parameters of a shader\<close>

lemma example_entries:
  "textureEntries (convertTextures exampleBrowser exampleMaterials) = [wallEntry]"
proof -
  obtain r where r: "encodeToDds exampleBrowser \<lparr>file_name = ''Wall.png'', file_bytes = [1]\<rparr> None = Inr r"
    and p: "enc_width r = 4" "enc_height r = 4" "enc_format r = DXT5"
    using example_encode_wall by blast
  show ?thesis
    by (simp add: convertTextures_def exampleMaterials_def slotStep_def slotOf_def
          sanitize_wall r p wallEntry_def Let_def)
qed

text \<open>
  Claim C4. The source resolves a texture parameter by a first lookup that compares
  positions before it looks for the texture assigned to the material. With two materials
  of which only the second has a diffuse texture, the export builds one texture entry,
  and the diffuse parameter of the first material, which has no texture at all, resolves
  to that entry: the document names the texture \<open>wall\<close> for it instead of the placeholder
  with an empty name.
\<close>

theorem texture_param_resolved_by_position:
  "textureEntries (convertTextures exampleBrowser exampleMaterials) = [wallEntry] \<and>
   mc_textures (exampleMaterials ! 0) = [] \<and>
   resolveTexture [wallEntry] 0 (exampleMaterials ! 0) ''DiffuseSampler'' = Some wallEntry \<and>
   textureParamLines [wallEntry] 0 (exampleMaterials ! 0) ''DiffuseSampler'' =
     [''          <Item name=\"DiffuseSampler\" type=\"Texture\">'',
      ''            <Name>wall</Name>'',
      ''          </Item>'']"
proof -
  have m: "mc_textures (exampleMaterials ! 0) = []" by (simp add: exampleMaterials_def)
  have r: "resolveTexture [wallEntry] 0 (exampleMaterials ! 0) ''DiffuseSampler'' = Some wallEntry"
    by (simp add: resolveTexture_def findWithIndex_def findIndex_def wallEntry_def)
  have e: "escXml ''wall'' = ''wall''" by (simp add: escXml_def replaceAllChar_def)
  have l: "textureParamLines [wallEntry] 0 (exampleMaterials ! 0) ''DiffuseSampler'' =
     [''          <Item name=\"DiffuseSampler\" type=\"Texture\">'',
      ''            <Name>wall</Name>'',
      ''          </Item>'']"
    unfolding textureParamLines_def r using e by (simp add: wallEntry_def)
  from example_entries m r l show ?thesis by blast
qed

end
